theory Spec2Isabelle
  imports Complex_Main "HOL-Library.AList"
begin

section \<open>Strings\<close>

text \<open>
  A JavaScript string is modelled as a \<^typ>\<open>string\<close> whose characters are read as the code
  points U+0000 to U+00FF. On these, \<^verbatim>\<open>toLowerCase\<close> maps A-Z and the accented capitals
  U+00C0 to U+00DE (the multiplication sign U+00D7 apart) 32 places up, and \<^verbatim>\<open>trim\<close>
  removes TAB, LF, VT, FF, CR, SPACE and NBSP from both ends.
\<close>

definition toLowerCase_char :: "char \<Rightarrow> char" where
  "toLowerCase_char c =
     (let n = (of_char c :: nat)
      in if (65 \<le> n \<and> n \<le> 90) \<or> (192 \<le> n \<and> n \<le> 222 \<and> n \<noteq> 215)
         then char_of (n + 32) else c)"

definition toLowerCase :: "string \<Rightarrow> string" where
  "toLowerCase s = map toLowerCase_char s"

definition is_whitespace :: "char \<Rightarrow> bool" where
  "is_whitespace c = (let n = (of_char c :: nat) in (9 \<le> n \<and> n \<le> 13) \<or> n = 32 \<or> n = 160)"

definition trim :: "string \<Rightarrow> string" where
  "trim s = rev (dropWhile is_whitespace (rev (dropWhile is_whitespace s)))"

section \<open>Documents and the collection\<close>

text \<open>
  A stored document is an ordered list of fields; the collection is the list of its
  documents in storage order. Field values are strings, dates (milliseconds) and the
  opaque payload of the matching service.
\<close>

datatype val = Str string | Date nat | Payload string

type_synonym doc = "(string \<times> val) list"

type_synonym collection = "doc list"

text \<open>The equality filter \<^verbatim>\<open>{ email: email }\<close>.\<close>

definition email_is :: "string \<Rightarrow> doc \<Rightarrow> bool" where
  "email_is e d = (map_of d ''email'' = Some (Str e))"

text \<open>\<^verbatim>\<open>collection.findOne({ email: email })\<close>: the first matching document, if any.\<close>

definition findOne :: "collection \<Rightarrow> string \<Rightarrow> doc option" where
  "findOne c e = find (email_is e) c"

text \<open>\<^verbatim>\<open>$set\<close>: each field of the update document is set on the stored document, in order.\<close>

definition set_fields :: "doc \<Rightarrow> doc \<Rightarrow> doc" where
  "set_fields d upd = fold (\<lambda>(k, v). AList.update k v) upd d"

text \<open>
  \<^verbatim>\<open>collection.updateOne({ email: email }, { $set: updateData })\<close>: the first matching
  document is merged with the update document; the result carries \<^verbatim>\<open>modifiedCount\<close>,
  which is 1 only when the stored document has changed.
\<close>

fun updateOne :: "collection \<Rightarrow> string \<Rightarrow> doc \<Rightarrow> collection \<times> nat" where
  "updateOne [] e upd = ([], 0)"
| "updateOne (d # ds) e upd =
     (if email_is e d
      then (set_fields d upd # ds, if set_fields d upd = d then 0 else 1)
      else (d # fst (updateOne ds e upd), snd (updateOne ds e upd)))"

text \<open>\<^verbatim>\<open>collection.insertOne(document)\<close>.\<close>

definition insertOne :: "collection \<Rightarrow> doc \<Rightarrow> collection" where
  "insertOne c d = c @ [d]"

section \<open>Input rows, the environment, and observable events\<close>

text \<open>A parsed CSV row: a column that the row does not have reads as \<^verbatim>\<open>undefined\<close>.\<close>

record csv_row =
  customer_email :: "string option"
  external_store_id :: "string option"
  name :: "string option"

text \<open>
  What the collaborators do is given by an environment, indexed by the 1-based position of
  the row being processed: whether the storage calls of that row throw, what the matching
  service answers (\<open>None\<close> when the request is rejected), and what \<^verbatim>\<open>new Date()\<close> reads.
  A storage call that throws has no effect on the collection.
\<close>

record env =
  connect_fails :: bool
  ingest_fails :: bool
  findOne_fails :: "nat \<Rightarrow> bool"
  updateOne_fails :: "nat \<Rightarrow> bool"
  insertOne_fails :: "nat \<Rightarrow> bool"
  api :: "nat \<Rightarrow> string \<Rightarrow> string option"
  now :: "nat \<Rightarrow> nat"

text \<open>
  What a run does to its collaborators is recorded as a list of events: the storage calls,
  the requests to the matching service, the waits, and the console messages of the loop.
\<close>

datatype message =
    MissingEmail | Updated | NoChanges | NotFound | Progress
  | AlreadyProcessed | Processed | Error

datatype event =
    FindOne string
  | UpdateOne string doc
  | InsertOne doc
  | Post string
  | Delay nat
  | Log message

text \<open>The storage state together with the calls issued so far, each tagged with its row.\<close>

record world =
  store :: collection
  trace :: "(nat \<times> event) list"

definition emit :: "nat \<Rightarrow> event \<Rightarrow> 'a world_scheme \<Rightarrow> 'a world_scheme" where
  "emit i e s = s\<lparr>trace := trace s @ [(i, e)]\<rparr>"

definition row_events :: "nat \<Rightarrow> (nat \<times> event) list \<Rightarrow> event list" where
  "row_events i tr = map snd (filter (\<lambda>p. fst p = i) tr)"

datatype fatal = ConnectionError | IngestError

section \<open>The update variant: \<^verbatim>\<open>updateStoreInfo\<close>\<close>

record ustate = world +
  totalProcessed :: nat
  updatedRecords :: nat
  notFoundRecords :: nat
  errorRecords :: nat

text \<open>The update document of one row, from the trimmed optional columns and the clock.\<close>

definition updateData :: "string option \<Rightarrow> string option \<Rightarrow> nat \<Rightarrow> doc" where
  "updateData externalStoreId storeName t =
     (case externalStoreId of
        None \<Rightarrow> []
      | Some x \<Rightarrow> if x = [] then [] else [(''external_store_id'', Str x)])
     @ (case storeName of
        None \<Rightarrow> []
      | Some x \<Rightarrow> if x = [] then [] else [(''store_name'', Str x)])
     @ [(''store_info_updated_at'', Date t)]"

text \<open>The progress report, every 100 rows.\<close>

definition progress :: "ustate \<Rightarrow> ustate" where
  "progress s =
     (if totalProcessed s mod 100 = 0 then emit (totalProcessed s) (Log Progress) s else s)"

text \<open>
  The body of the \<^verbatim>\<open>try\<close> block of one row. The result says whether an exception was
  thrown, with the state as it was at that moment.
\<close>

definition update_try :: "env \<Rightarrow> csv_row \<Rightarrow> ustate \<Rightarrow> bool \<times> ustate" where
  "update_try ev r s =
     (let i = totalProcessed s;
          email = map_option (\<lambda>x. trim (toLowerCase x)) (customer_email r);
          externalStoreId = map_option trim (external_store_id r);
          storeName = map_option trim (name r)
      in case (case email of None \<Rightarrow> None | Some e \<Rightarrow> if e = [] then None else Some e) of
           None \<Rightarrow> (False, emit i (Log MissingEmail) (s\<lparr>errorRecords := errorRecords s + 1\<rparr>))
         | Some e \<Rightarrow>
            (let s1 = emit i (FindOne e) s
             in if findOne_fails ev i then (True, s1)
                else case findOne (store s1) e of
                  Some existingRecord \<Rightarrow>
                    (let upd = updateData externalStoreId storeName (now ev i);
                         s2 = emit i (UpdateOne e upd) s1
                     in if updateOne_fails ev i then (True, s2)
                        else
                          (let result = updateOne (store s2) e upd;
                               s3 = s2\<lparr>store := fst result\<rparr>
                           in (False, progress
                                (if snd result > 0
                                 then emit i (Log Updated)
                                        (s3\<lparr>updatedRecords := updatedRecords s3 + 1\<rparr>)
                                 else emit i (Log NoChanges) s3))))
                | None \<Rightarrow>
                    (False, progress
                       (emit i (Log NotFound)
                          (s1\<lparr>notFoundRecords := notFoundRecords s1 + 1\<rparr>)))))"

text \<open>One iteration of the loop: count the row, run the body, catch what it throws.\<close>

definition update_row :: "env \<Rightarrow> csv_row \<Rightarrow> ustate \<Rightarrow> ustate" where
  "update_row ev r s =
     (case update_try ev r (s\<lparr>totalProcessed := totalProcessed s + 1\<rparr>) of
        (False, s') \<Rightarrow> s'
      | (True, s') \<Rightarrow>
          emit (totalProcessed s') (Log Error) (s'\<lparr>errorRecords := errorRecords s' + 1\<rparr>))"

fun update_rows :: "env \<Rightarrow> csv_row list \<Rightarrow> ustate \<Rightarrow> ustate" where
  "update_rows ev [] s = s"
| "update_rows ev (r # rs) s = update_rows ev rs (update_row ev r s)"

definition ustate_init :: "collection \<Rightarrow> ustate" where
  "ustate_init c =
     \<lparr>store = c, trace = [], totalProcessed = 0, updatedRecords = 0,
      notFoundRecords = 0, errorRecords = 0\<rparr>"

text \<open>
  The job: a failed connection or a failed read of the input file is caught by the outer
  handler before any row is processed; otherwise the loop runs over all rows. The summary and
  the sample query that follow the loop only read and print, and are left out.
\<close>

definition updateStoreInfo :: "env \<Rightarrow> csv_row list \<Rightarrow> collection \<Rightarrow> fatal + ustate" where
  "updateStoreInfo ev csvRows c =
     (if connect_fails ev then Inl ConnectionError
      else if ingest_fails ev then Inl IngestError
      else Inr (update_rows ev csvRows (ustate_init c)))"

section \<open>The enrichment variant: \<^verbatim>\<open>processEmails\<close>\<close>

record estate = world +
  currentIndex :: nat

text \<open>The test \<^verbatim>\<open>currentIndex >= startRange && currentIndex <= endRange\<close>.\<close>

definition in_range :: "int \<Rightarrow> int \<Rightarrow> nat \<Rightarrow> bool" where
  "in_range startRange endRange i = (int i \<ge> startRange \<and> int i \<le> endRange)"

text \<open>
  The body of the \<^verbatim>\<open>try\<close> block of one in-range row. Reading \<^verbatim>\<open>toLowerCase\<close> of a
  missing \<open>customer_email\<close> throws at once; a found record ends the iteration
  (\<^verbatim>\<open>continue\<close>); the wait of 1000 ms is the last statement of the block.
\<close>

definition process_try :: "env \<Rightarrow> csv_row \<Rightarrow> estate \<Rightarrow> bool \<times> estate" where
  "process_try ev r s =
     (let i = currentIndex s
      in case customer_email r of
           None \<Rightarrow> (True, s)
         | Some raw \<Rightarrow>
            (let email = toLowerCase raw;
                 s1 = emit i (FindOne email) s
             in if findOne_fails ev i then (True, s1)
                else case findOne (store s1) email of
                  Some existingRecord \<Rightarrow> (False, emit i (Log AlreadyProcessed) s1)
                | None \<Rightarrow>
                    (let s2 = emit i (Post email) s1
                     in case api ev i email of
                          None \<Rightarrow> (True, s2)
                        | Some payload \<Rightarrow>
                            (let d = [(''email'', Str email), (''data'', Payload payload),
                                      (''processedAt'', Date (now ev i))];
                                 s3 = emit i (InsertOne d) s2
                             in if insertOne_fails ev i then (True, s3)
                                else (False,
                                  emit i (Delay 1000)
                                    (emit i (Log Processed)
                                       (s3\<lparr>store := insertOne (store s3) d\<rparr>)))))))"

text \<open>One iteration: count the row, and if it is in range run the body and catch what it throws.\<close>

definition process_row :: "env \<Rightarrow> int \<Rightarrow> int \<Rightarrow> csv_row \<Rightarrow> estate \<Rightarrow> estate" where
  "process_row ev startRange endRange r s =
     (let s0 = s\<lparr>currentIndex := currentIndex s + 1\<rparr>
      in if in_range startRange endRange (currentIndex s0)
         then (case process_try ev r s0 of
                 (False, s') \<Rightarrow> s'
               | (True, s') \<Rightarrow> emit (currentIndex s') (Log Error) s')
         else s0)"

fun process_rows :: "env \<Rightarrow> int \<Rightarrow> int \<Rightarrow> csv_row list \<Rightarrow> estate \<Rightarrow> estate" where
  "process_rows ev startRange endRange [] s = s"
| "process_rows ev startRange endRange (r # rs) s =
     process_rows ev startRange endRange rs (process_row ev startRange endRange r s)"

definition estate_init :: "collection \<Rightarrow> estate" where
  "estate_init c = \<lparr>store = c, trace = [], currentIndex = 0\<rparr>"

text \<open>The job, with the same outer handler as the update variant.\<close>

definition processEmails :: "env \<Rightarrow> int \<Rightarrow> int \<Rightarrow> csv_row list \<Rightarrow> collection \<Rightarrow> fatal + estate" where
  "processEmails ev startRange endRange rows c =
     (if connect_fails ev then Inl ConnectionError
      else if ingest_fails ev then Inl IngestError
      else Inr (process_rows ev startRange endRange rows (estate_init c)))"

section \<open>Observing a run\<close>

fun is_lookup :: "event \<Rightarrow> bool" where
  "is_lookup (FindOne e) = True"
| "is_lookup _ = False"

fun is_write :: "event \<Rightarrow> bool" where
  "is_write (UpdateOne e upd) = True"
| "is_write (InsertOne d) = True"
| "is_write _ = False"

fun is_storage :: "event \<Rightarrow> bool" where
  "is_storage (FindOne e) = True"
| "is_storage (UpdateOne e upd) = True"
| "is_storage (InsertOne d) = True"
| "is_storage _ = False"

fun is_insert :: "event \<Rightarrow> bool" where
  "is_insert (InsertOne d) = True"
| "is_insert _ = False"

fun is_post :: "event \<Rightarrow> bool" where
  "is_post (Post e) = True"
| "is_post _ = False"

definition tags_upto :: "nat \<Rightarrow> (nat \<times> event) list \<Rightarrow> bool" where
  "tags_upto n tr = list_all (\<lambda>p. fst p \<le> n) tr"

definition tags_from :: "nat \<Rightarrow> (nat \<times> event) list \<Rightarrow> bool" where
  "tags_from n tr = list_all (\<lambda>p. n \<le> fst p) tr"

text \<open>The email field of every stored document, in storage order.\<close>

definition emails :: "collection \<Rightarrow> val option list" where
  "emails c = map (\<lambda>d. map_of d ''email'') c"

text \<open>The state of the update variant when the row at 0-based position \<open>k\<close> is reached.\<close>

definition u_before :: "env \<Rightarrow> csv_row list \<Rightarrow> collection \<Rightarrow> nat \<Rightarrow> ustate" where
  "u_before ev csvRows c k = update_rows ev (take k csvRows) (ustate_init c)"

definition counters :: "ustate \<Rightarrow> nat \<times> nat \<times> nat \<times> nat" where
  "counters s = (totalProcessed s, updatedRecords s, notFoundRecords s, errorRecords s)"

text \<open>The number of rows whose update left the stored document as it was.\<close>

definition no_change_count :: "(nat \<times> event) list \<Rightarrow> nat" where
  "no_change_count tr = length (filter (\<lambda>p. snd p = Log NoChanges) tr)"

text \<open>The state of the enrichment variant when the row at 0-based position \<open>k\<close> is reached.\<close>

definition e_before :: "env \<Rightarrow> int \<Rightarrow> int \<Rightarrow> csv_row list \<Rightarrow> collection \<Rightarrow> nat \<Rightarrow> estate" where
  "e_before ev startRange endRange rows c k =
     process_rows ev startRange endRange (take k rows) (estate_init c)"

fun is_log :: "event \<Rightarrow> bool" where
  "is_log (Log m) = True"
| "is_log _ = False"

fun is_delay :: "event \<Rightarrow> bool" where
  "is_delay (Delay ms) = True"
| "is_delay _ = False"

text \<open>
  Whether the \<^verbatim>\<open>try\<close> block of the row at 0-based position \<open>k\<close> throws, in a run of
  the update variant and in a run of the enrichment variant.
\<close>

definition u_raises :: "env \<Rightarrow> csv_row list \<Rightarrow> collection \<Rightarrow> nat \<Rightarrow> bool" where
  "u_raises ev csvRows c k =
     (let s = u_before ev csvRows c k
      in fst (update_try ev (csvRows ! k) (s\<lparr>totalProcessed := totalProcessed s + 1\<rparr>)))"

definition e_raises :: "env \<Rightarrow> int \<Rightarrow> int \<Rightarrow> csv_row list \<Rightarrow> collection \<Rightarrow> nat \<Rightarrow> bool" where
  "e_raises ev startRange endRange rows c k =
     (let s = e_before ev startRange endRange rows c k
      in in_range startRange endRange (currentIndex s + 1)
         \<and> fst (process_try ev (rows ! k) (s\<lparr>currentIndex := currentIndex s + 1\<rparr>)))"

section \<open>The reporter: \<^verbatim>\<open>verifyStoreInfo\<close>\<close>

text \<open>
  The quotient of two counts as a JavaScript number: a ratio, or one of the two values
  that a division by zero yields. Rounding is not modelled.
\<close>

datatype jsnum = Num rat | PosInfinity | NaN

definition js_div :: "nat \<Rightarrow> nat \<Rightarrow> jsnum" where
  "js_div a b =
     (if b = 0 then (if a = 0 then NaN else PosInfinity) else Num (of_nat a / of_nat b))"

definition js_times100 :: "jsnum \<Rightarrow> jsnum" where
  "js_times100 x = (case x of Num q \<Rightarrow> Num (q * 100) | PosInfinity \<Rightarrow> PosInfinity | NaN \<Rightarrow> NaN)"

text \<open>The filter \<^verbatim>\<open>{ field: { $exists: true } }\<close>.\<close>

definition has_field :: "string \<Rightarrow> doc \<Rightarrow> bool" where
  "has_field f d = (map_of d f \<noteq> None)"

definition countDocuments :: "collection \<Rightarrow> (doc \<Rightarrow> bool) \<Rightarrow> nat" where
  "countDocuments c P = length (filter P c)"

text \<open>
  What the report prints of the counts; \<open>coverage\<close> is \<open>None\<close> when the coverage line is
  not printed. The four counts are taken on one state of the collection. The samples and the
  list of stores that the report goes on to print are left out.
\<close>

record report =
  totalRecords :: nat
  withStoreId :: nat
  withStoreName :: nat
  withBothStoreInfo :: nat
  coverage :: "jsnum option"

definition verifyStoreInfo :: "env \<Rightarrow> collection \<Rightarrow> fatal + report" where
  "verifyStoreInfo ev c =
     (if connect_fails ev then Inl ConnectionError
      else
        (let total = countDocuments c (\<lambda>d. True);
             ids = countDocuments c (has_field ''external_store_id'');
             names = countDocuments c (has_field ''store_name'');
             both = countDocuments c
                      (\<lambda>d. has_field ''external_store_id'' d \<and> has_field ''store_name'' d)
         in Inr \<lparr>totalRecords = total, withStoreId = ids, withStoreName = names,
                 withBothStoreInfo = both,
                 coverage = (if both > 0 then Some (js_times100 (js_div both total)) else None)\<rparr>))"

section \<open>Example inputs\<close>

text \<open>An environment without faults whose clock reads 5 throughout.\<close>

definition steady_env :: env where
  "steady_env =
     \<lparr>connect_fails = False, ingest_fails = False, findOne_fails = (\<lambda>i. False),
      updateOne_fails = (\<lambda>i. False), insertOne_fails = (\<lambda>i. False),
      api = (\<lambda>i e. Some ''{}''), now = (\<lambda>i. 5)\<rparr>"

definition acme_row :: csv_row where
  "acme_row =
     \<lparr>customer_email = Some ''A@X.com'', external_store_id = Some ''S1'', name = Some ''Acme''\<rparr>"

definition blank_row :: csv_row where
  "blank_row = \<lparr>customer_email = Some ''  '', external_store_id = Some ''S2'', name = None\<rparr>"

definition stranger_row :: csv_row where
  "stranger_row =
     \<lparr>customer_email = Some ''nobody@y.org'', external_store_id = None, name = Some ''Zed''\<rparr>"

definition acme_store :: collection where
  "acme_store = [[(''email'', Str ''a@x.com'')]]"

text \<open>The first lookup of a run throws.\<close>

definition faulty_env :: env where
  "faulty_env = steady_env\<lparr>findOne_fails := (\<lambda>i. i = 1)\<rparr>"

text \<open>The matching service rejects the request made for the first row.\<close>

definition rejecting_env :: env where
  "rejecting_env = steady_env\<lparr>api := (\<lambda>i e. if i = 1 then None else Some ''{}'')\<rparr>"

definition no_email_row :: csv_row where
  "no_email_row = \<lparr>customer_email = None, external_store_id = Some ''S3'', name = None\<rparr>"

definition ten_rows :: "csv_row list" where
  "ten_rows =
     [acme_row, stranger_row, no_email_row, blank_row, acme_row,
      stranger_row, acme_row, no_email_row, stranger_row, blank_row]"

definition stocked_store :: collection where
  "stocked_store =
     [[(''email'', Str ''a@x.com''), (''external_store_id'', Str ''S1''), (''store_name'', Str ''Acme'')],
      [(''email'', Str ''b@x.com''), (''external_store_id'', Str ''S1'')],
      [(''email'', Str ''c@x.com'')]]"

text \<open>The storage connection cannot be established.\<close>

definition offline_env :: env where
  "offline_env = steady_env\<lparr>connect_fails := True\<rparr>"

text \<open>The insert made for the first row throws.\<close>

definition insert_failing_env :: env where
  "insert_failing_env = steady_env\<lparr>insertOne_fails := (\<lambda>i. i = 1)\<rparr>"

section \<open>Traces\<close>

lemma row_events_Nil [simp]: "row_events i [] = []"
  by (simp add: row_events_def)

lemma row_events_append [simp]: "row_events i (xs @ ys) = row_events i xs @ row_events i ys"
  by (simp add: row_events_def)

lemma row_events_Cons [simp]:
  "row_events i ((j, e) # tr) = (if j = i then e # row_events i tr else row_events i tr)"
  by (simp add: row_events_def)

lemma row_events_tags_upto: "tags_upto n tr \<Longrightarrow> n < i \<Longrightarrow> row_events i tr = []"
  by (induction tr) (auto simp: tags_upto_def)

lemma row_events_tags_from: "tags_from n tr \<Longrightarrow> i < n \<Longrightarrow> row_events i tr = []"
  by (induction tr) (auto simp: tags_from_def)

lemma tags_upto_append [simp]: "tags_upto n (xs @ ys) = (tags_upto n xs \<and> tags_upto n ys)"
  by (simp add: tags_upto_def)

lemma tags_from_append [simp]: "tags_from n (xs @ ys) = (tags_from n xs \<and> tags_from n ys)"
  by (simp add: tags_from_def)

lemma tags_upto_mono: "tags_upto n tr \<Longrightarrow> n \<le> m \<Longrightarrow> tags_upto m tr"
  by (induction tr) (auto simp: tags_upto_def)

lemma tags_from_mono: "tags_from n tr \<Longrightarrow> m \<le> n \<Longrightarrow> tags_from m tr"
  by (induction tr) (auto simp: tags_from_def)


subsection \<open>Storage operations\<close>

lemma map_of_fold_update:
  "map_of (fold (\<lambda>(k, v). AList.update k v) upd d) = map_of d ++ map_of (rev upd)"
proof (induction upd arbitrary: d)
  case Nil
  show ?case by simp
next
  case (Cons p upd)
  obtain k v where p: "p = (k, v)" by (cases p)
  show ?case
    by (simp add: p Cons.IH update_conv' map_add_def fun_eq_iff map_of_append split: option.splits)
qed

lemma set_fields_other:
  "f \<notin> fst ` set upd \<Longrightarrow> map_of (set_fields d upd) f = map_of d f"
proof -
  assume "f \<notin> fst ` set upd"
  then have "map_of (rev upd) f = None"
    by (simp add: map_of_eq_None_iff)
  then show ?thesis
    by (simp add: set_fields_def map_of_fold_update map_add_def)
qed

lemma set_fields_named:
  "distinct (map fst upd) \<Longrightarrow> (f, v) \<in> set upd \<Longrightarrow> map_of (set_fields d upd) f = Some v"
proof -
  assume "distinct (map fst upd)" and "(f, v) \<in> set upd"
  then have "map_of (rev upd) f = Some v"
    by (intro map_of_is_SomeI) (simp_all add: rev_map [symmetric])
  then show ?thesis
    by (simp add: set_fields_def map_of_fold_update map_add_def)
qed

lemma updateData_keys:
  "fst ` set (updateData a b t) \<subseteq> {''external_store_id'', ''store_name'', ''store_info_updated_at''}"
  by (auto simp: updateData_def split: option.splits if_splits)

lemma updateData_distinct: "distinct (map fst (updateData a b t))"
  by (auto simp: updateData_def split: option.splits)

lemma updateData_no_email: "''email'' \<notin> fst ` set (updateData a b t)"
  using updateData_keys [of a b t] by auto

lemma length_updateOne [simp]: "length (fst (updateOne c e upd)) = length c"
  by (induction c) simp_all

lemma emails_updateOne:
  "''email'' \<notin> fst ` set upd \<Longrightarrow> emails (fst (updateOne c e upd)) = emails c"
  by (induction c) (simp_all add: emails_def set_fields_other)

lemma updateOne_found:
  "findOne c e = Some d \<Longrightarrow>
   \<exists>j<length c. c ! j = d \<and> email_is e d \<and> (\<forall>j'<j. \<not> email_is e (c ! j'))
      \<and> fst (updateOne c e upd) = c[j := set_fields d upd]"
proof (induction c)
  case Nil
  then show ?case by (simp add: findOne_def)
next
  case (Cons x c)
  show ?case
  proof (cases "email_is e x")
    case True
    with Cons.prems have "x = d" by (simp add: findOne_def)
    with True show ?thesis by (intro exI [of _ 0]) simp
  next
    case False
    with Cons.prems have "findOne c e = Some d" by (simp add: findOne_def)
    from Cons.IH [OF this] obtain j where j: "j < length c" "c ! j = d" "email_is e d"
      "\<forall>j'<j. \<not> email_is e (c ! j')" "fst (updateOne c e upd) = c[j := set_fields d upd]"
      by blast
    have "\<forall>j'<Suc j. \<not> email_is e ((x # c) ! j')"
      using False j(4) by (auto simp: less_Suc_eq_0_disj)
    with j False show ?thesis by (intro exI [of _ "Suc j"]) simp
  qed
qed

lemma updateOne_fields:
  "j < length c \<Longrightarrow> f \<notin> fst ` set upd \<Longrightarrow>
   map_of (fst (updateOne c e upd) ! j) f = map_of (c ! j) f"
proof (induction c arbitrary: j)
  case Nil
  then show ?case by simp
next
  case (Cons x c)
  then show ?case by (cases j) (simp_all add: set_fields_other)
qed

subsection \<open>One row of the update variant\<close>


lemma update_row_missing:
  "customer_email r = None \<or> (\<exists>raw. customer_email r = Some raw \<and> trim (toLowerCase raw) = []) \<Longrightarrow>
   update_row ev r s = emit (Suc (totalProcessed s)) (Log MissingEmail)
      (s\<lparr>totalProcessed := Suc (totalProcessed s), errorRecords := errorRecords s + 1\<rparr>)"
  by (auto simp: update_row_def update_try_def Let_def)

lemma update_row_find_fails:
  "customer_email r = Some raw \<Longrightarrow> trim (toLowerCase raw) \<noteq> [] \<Longrightarrow>
   findOne_fails ev (Suc (totalProcessed s)) \<Longrightarrow>
   update_row ev r s = emit (Suc (totalProcessed s)) (Log Error)
      (emit (Suc (totalProcessed s)) (FindOne (trim (toLowerCase raw)))
        (s\<lparr>totalProcessed := Suc (totalProcessed s), errorRecords := errorRecords s + 1\<rparr>))"
  by (simp add: update_row_def update_try_def Let_def emit_def)

lemma update_row_absent:
  "customer_email r = Some raw \<Longrightarrow> trim (toLowerCase raw) \<noteq> [] \<Longrightarrow>
   \<not> findOne_fails ev (Suc (totalProcessed s)) \<Longrightarrow>
   findOne (store s) (trim (toLowerCase raw)) = None \<Longrightarrow>
   update_row ev r s = progress (emit (Suc (totalProcessed s)) (Log NotFound)
      (emit (Suc (totalProcessed s)) (FindOne (trim (toLowerCase raw)))
        (s\<lparr>totalProcessed := Suc (totalProcessed s),
           notFoundRecords := notFoundRecords s + 1\<rparr>)))"
  by (simp add: update_row_def update_try_def Let_def emit_def)

lemma update_row_update_fails:
  "customer_email r = Some raw \<Longrightarrow> trim (toLowerCase raw) \<noteq> [] \<Longrightarrow>
   \<not> findOne_fails ev (Suc (totalProcessed s)) \<Longrightarrow>
   findOne (store s) (trim (toLowerCase raw)) = Some d \<Longrightarrow>
   updateOne_fails ev (Suc (totalProcessed s)) \<Longrightarrow>
   upd = updateData (map_option trim (external_store_id r)) (map_option trim (name r))
           (now ev (Suc (totalProcessed s))) \<Longrightarrow>
   update_row ev r s = emit (Suc (totalProcessed s)) (Log Error)
      (emit (Suc (totalProcessed s)) (UpdateOne (trim (toLowerCase raw)) upd)
        (emit (Suc (totalProcessed s)) (FindOne (trim (toLowerCase raw)))
          (s\<lparr>totalProcessed := Suc (totalProcessed s), errorRecords := errorRecords s + 1\<rparr>)))"
  by (simp add: update_row_def update_try_def Let_def emit_def)

lemma update_row_modified:
  "customer_email r = Some raw \<Longrightarrow> trim (toLowerCase raw) \<noteq> [] \<Longrightarrow>
   \<not> findOne_fails ev (Suc (totalProcessed s)) \<Longrightarrow>
   findOne (store s) (trim (toLowerCase raw)) = Some d \<Longrightarrow>
   \<not> updateOne_fails ev (Suc (totalProcessed s)) \<Longrightarrow>
   upd = updateData (map_option trim (external_store_id r)) (map_option trim (name r))
           (now ev (Suc (totalProcessed s))) \<Longrightarrow>
   0 < snd (updateOne (store s) (trim (toLowerCase raw)) upd) \<Longrightarrow>
   update_row ev r s = progress (emit (Suc (totalProcessed s)) (Log Updated)
      (emit (Suc (totalProcessed s)) (UpdateOne (trim (toLowerCase raw)) upd)
        (emit (Suc (totalProcessed s)) (FindOne (trim (toLowerCase raw)))
          (s\<lparr>totalProcessed := Suc (totalProcessed s),
             store := fst (updateOne (store s) (trim (toLowerCase raw)) upd),
             updatedRecords := updatedRecords s + 1\<rparr>))))"
  by (simp add: update_row_def update_try_def Let_def emit_def)

lemma update_row_unmodified:
  "customer_email r = Some raw \<Longrightarrow> trim (toLowerCase raw) \<noteq> [] \<Longrightarrow>
   \<not> findOne_fails ev (Suc (totalProcessed s)) \<Longrightarrow>
   findOne (store s) (trim (toLowerCase raw)) = Some d \<Longrightarrow>
   \<not> updateOne_fails ev (Suc (totalProcessed s)) \<Longrightarrow>
   upd = updateData (map_option trim (external_store_id r)) (map_option trim (name r))
           (now ev (Suc (totalProcessed s))) \<Longrightarrow>
   snd (updateOne (store s) (trim (toLowerCase raw)) upd) = 0 \<Longrightarrow>
   update_row ev r s = progress (emit (Suc (totalProcessed s)) (Log NoChanges)
      (emit (Suc (totalProcessed s)) (UpdateOne (trim (toLowerCase raw)) upd)
        (emit (Suc (totalProcessed s)) (FindOne (trim (toLowerCase raw)))
          (s\<lparr>totalProcessed := Suc (totalProcessed s),
             store := fst (updateOne (store s) (trim (toLowerCase raw)) upd)\<rparr>))))"
  by (simp add: update_row_def update_try_def Let_def emit_def)


lemma update_row_outcomes [case_names missing find_fails absent update_fails modified unmodified]:
  obtains
    (missing)
      "customer_email r = None
         \<or> (\<exists>raw. customer_email r = Some raw \<and> trim (toLowerCase raw) = [])"
      "update_row ev r s = emit (Suc (totalProcessed s)) (Log MissingEmail)
         (s\<lparr>totalProcessed := Suc (totalProcessed s), errorRecords := errorRecords s + 1\<rparr>)"
  | (find_fails) raw where
      "customer_email r = Some raw" "trim (toLowerCase raw) \<noteq> []"
      "findOne_fails ev (Suc (totalProcessed s))"
      "update_row ev r s = emit (Suc (totalProcessed s)) (Log Error)
         (emit (Suc (totalProcessed s)) (FindOne (trim (toLowerCase raw)))
           (s\<lparr>totalProcessed := Suc (totalProcessed s),
              errorRecords := errorRecords s + 1\<rparr>))"
  | (absent) raw where
      "customer_email r = Some raw" "trim (toLowerCase raw) \<noteq> []"
      "\<not> findOne_fails ev (Suc (totalProcessed s))"
      "findOne (store s) (trim (toLowerCase raw)) = None"
      "update_row ev r s = progress (emit (Suc (totalProcessed s)) (Log NotFound)
         (emit (Suc (totalProcessed s)) (FindOne (trim (toLowerCase raw)))
           (s\<lparr>totalProcessed := Suc (totalProcessed s),
              notFoundRecords := notFoundRecords s + 1\<rparr>)))"
  | (update_fails) raw d upd where
      "customer_email r = Some raw" "trim (toLowerCase raw) \<noteq> []"
      "\<not> findOne_fails ev (Suc (totalProcessed s))"
      "findOne (store s) (trim (toLowerCase raw)) = Some d"
      "updateOne_fails ev (Suc (totalProcessed s))"
      "upd = updateData (map_option trim (external_store_id r)) (map_option trim (name r))
               (now ev (Suc (totalProcessed s)))"
      "update_row ev r s = emit (Suc (totalProcessed s)) (Log Error)
         (emit (Suc (totalProcessed s)) (UpdateOne (trim (toLowerCase raw)) upd)
           (emit (Suc (totalProcessed s)) (FindOne (trim (toLowerCase raw)))
             (s\<lparr>totalProcessed := Suc (totalProcessed s),
                errorRecords := errorRecords s + 1\<rparr>)))"
  | (modified) raw d upd where
      "customer_email r = Some raw" "trim (toLowerCase raw) \<noteq> []"
      "\<not> findOne_fails ev (Suc (totalProcessed s))"
      "findOne (store s) (trim (toLowerCase raw)) = Some d"
      "\<not> updateOne_fails ev (Suc (totalProcessed s))"
      "upd = updateData (map_option trim (external_store_id r)) (map_option trim (name r))
               (now ev (Suc (totalProcessed s)))"
      "0 < snd (updateOne (store s) (trim (toLowerCase raw)) upd)"
      "update_row ev r s = progress (emit (Suc (totalProcessed s)) (Log Updated)
         (emit (Suc (totalProcessed s)) (UpdateOne (trim (toLowerCase raw)) upd)
           (emit (Suc (totalProcessed s)) (FindOne (trim (toLowerCase raw)))
             (s\<lparr>totalProcessed := Suc (totalProcessed s),
                store := fst (updateOne (store s) (trim (toLowerCase raw)) upd),
                updatedRecords := updatedRecords s + 1\<rparr>))))"
  | (unmodified) raw d upd where
      "customer_email r = Some raw" "trim (toLowerCase raw) \<noteq> []"
      "\<not> findOne_fails ev (Suc (totalProcessed s))"
      "findOne (store s) (trim (toLowerCase raw)) = Some d"
      "\<not> updateOne_fails ev (Suc (totalProcessed s))"
      "upd = updateData (map_option trim (external_store_id r)) (map_option trim (name r))
               (now ev (Suc (totalProcessed s)))"
      "snd (updateOne (store s) (trim (toLowerCase raw)) upd) = 0"
      "update_row ev r s = progress (emit (Suc (totalProcessed s)) (Log NoChanges)
         (emit (Suc (totalProcessed s)) (UpdateOne (trim (toLowerCase raw)) upd)
           (emit (Suc (totalProcessed s)) (FindOne (trim (toLowerCase raw)))
             (s\<lparr>totalProcessed := Suc (totalProcessed s),
                store := fst (updateOne (store s) (trim (toLowerCase raw)) upd)\<rparr>))))"
proof (cases "customer_email r = None
    \<or> (\<exists>raw. customer_email r = Some raw \<and> trim (toLowerCase raw) = [])")
  case True
  from this update_row_missing [OF this] show ?thesis by (rule missing)
next
  case False
  then obtain raw where raw: "customer_email r = Some raw" "trim (toLowerCase raw) \<noteq> []"
    by (cases "customer_email r") auto
  show ?thesis
  proof (cases "findOne_fails ev (Suc (totalProcessed s))")
    case True
    from raw this update_row_find_fails [OF raw this] show ?thesis by (rule find_fails)
  next
    case nf: False
    show ?thesis
    proof (cases "findOne (store s) (trim (toLowerCase raw))")
      case None
      from raw nf this update_row_absent [OF raw nf this] show ?thesis by (rule absent)
    next
      case (Some d)
      let ?upd = "updateData (map_option trim (external_store_id r)) (map_option trim (name r))
        (now ev (Suc (totalProcessed s)))"
      show ?thesis
      proof (cases "updateOne_fails ev (Suc (totalProcessed s))")
        case True
        from raw nf Some this refl update_row_update_fails [OF raw nf Some this refl]
        show ?thesis by (rule update_fails)
      next
        case nu: False
        show ?thesis
        proof (cases "0 < snd (updateOne (store s) (trim (toLowerCase raw)) ?upd)")
          case True
          from raw nf Some nu refl this update_row_modified [OF raw nf Some nu refl this]
          show ?thesis by (rule modified)
        next
          case False
          then have z: "snd (updateOne (store s) (trim (toLowerCase raw)) ?upd) = 0" by simp
          from raw nf Some nu refl z update_row_unmodified [OF raw nf Some nu refl z]
          show ?thesis by (rule unmodified)
        qed
      qed
    qed
  qed
qed

lemma progress_simps [simp]:
  "store (progress s) = store s" "totalProcessed (progress s) = totalProcessed s"
  "updatedRecords (progress s) = updatedRecords s" "notFoundRecords (progress s) = notFoundRecords s"
  "errorRecords (progress s) = errorRecords s"
  by (simp_all add: progress_def emit_def)

lemma emit_simps [simp]:
  "store (emit i e s) = store s" "trace (emit i e s) = trace s @ [(i, e)]"
  by (simp_all add: emit_def)

lemma emit_ustate [simp]:
  "totalProcessed (emit i e s) = totalProcessed s" "updatedRecords (emit i e s) = updatedRecords s"
  "notFoundRecords (emit i e s) = notFoundRecords s" "errorRecords (emit i e s) = errorRecords s"
  by (simp_all add: emit_def)

lemma trace_progress:
  "trace (progress s) = trace s
     @ (if totalProcessed s mod 100 = 0 then [(totalProcessed s, Log Progress)] else [])"
  by (simp add: progress_def)

lemma update_row_total [simp]: "totalProcessed (update_row ev r s) = Suc (totalProcessed s)"
  by (cases ev r s rule: update_row_outcomes) simp_all

lemma update_row_balance:
  "totalProcessed (update_row ev r s)
     + (updatedRecords s + notFoundRecords s + errorRecords s + no_change_count (trace s))
   = totalProcessed s
     + (updatedRecords (update_row ev r s) + notFoundRecords (update_row ev r s)
        + errorRecords (update_row ev r s) + no_change_count (trace (update_row ev r s)))"
  by (cases ev r s rule: update_row_outcomes)
     (simp_all add: trace_progress no_change_count_def)

lemma update_row_trace:
  "\<exists>tr. trace (update_row ev r s) = trace s @ tr
     \<and> tags_from (Suc (totalProcessed s)) tr \<and> tags_upto (Suc (totalProcessed s)) tr"
  by (cases ev r s rule: update_row_outcomes)
     (simp_all add: trace_progress tags_from_def tags_upto_def)

lemma update_row_emails: "emails (store (update_row ev r s)) = emails (store s)"
  by (cases ev r s rule: update_row_outcomes)
     (simp_all add: emails_updateOne updateData_no_email)

lemma update_row_no_insert:
  "list_all (\<lambda>p. \<not> is_insert (snd p)) (trace s) \<Longrightarrow>
   list_all (\<lambda>p. \<not> is_insert (snd p)) (trace (update_row ev r s))"
  by (cases ev r s rule: update_row_outcomes) (simp_all add: trace_progress)

lemma update_row_lookup:
  "customer_email r = Some raw \<Longrightarrow> trim (toLowerCase raw) \<noteq> [] \<Longrightarrow>
   row_events (Suc (totalProcessed s)) (trace s) = [] \<Longrightarrow>
   filter is_lookup (row_events (Suc (totalProcessed s)) (trace (update_row ev r s)))
     = [FindOne (trim (toLowerCase raw))]"
  by (cases ev r s rule: update_row_outcomes) (auto simp: trace_progress)

lemma update_row_found:
  "customer_email r = Some raw \<Longrightarrow> trim (toLowerCase raw) \<noteq> [] \<Longrightarrow>
   \<not> findOne_fails ev (Suc (totalProcessed s)) \<Longrightarrow>
   findOne (store s) (trim (toLowerCase raw)) = Some d \<Longrightarrow>
   row_events (Suc (totalProcessed s)) (trace s) = [] \<Longrightarrow>
   filter is_write (row_events (Suc (totalProcessed s)) (trace (update_row ev r s)))
     = [UpdateOne (trim (toLowerCase raw))
          (updateData (map_option trim (external_store_id r)) (map_option trim (name r))
             (now ev (Suc (totalProcessed s))))]
   \<and> (\<not> updateOne_fails ev (Suc (totalProcessed s)) \<longrightarrow>
        store (update_row ev r s) = fst (updateOne (store s) (trim (toLowerCase raw))
          (updateData (map_option trim (external_store_id r)) (map_option trim (name r))
             (now ev (Suc (totalProcessed s))))))"
  by (cases ev r s rule: update_row_outcomes) (auto simp: trace_progress)

lemma update_row_not_found:
  "customer_email r = Some raw \<Longrightarrow> trim (toLowerCase raw) \<noteq> [] \<Longrightarrow>
   \<not> findOne_fails ev (Suc (totalProcessed s)) \<Longrightarrow>
   findOne (store s) (trim (toLowerCase raw)) = None \<Longrightarrow>
   row_events (Suc (totalProcessed s)) (trace s) = [] \<Longrightarrow>
   filter is_write (row_events (Suc (totalProcessed s)) (trace (update_row ev r s))) = []
   \<and> store (update_row ev r s) = store s
   \<and> notFoundRecords (update_row ev r s) = notFoundRecords s + 1"
  by (cases ev r s rule: update_row_outcomes) (auto simp: trace_progress)

subsection \<open>The loop of the update variant\<close>

lemma update_rows_append:
  "update_rows ev (xs @ ys) s = update_rows ev ys (update_rows ev xs s)"
  by (induction xs arbitrary: s) simp_all

lemma update_rows_total [simp]:
  "totalProcessed (update_rows ev rs s) = totalProcessed s + length rs"
  by (induction rs arbitrary: s) simp_all

lemma update_rows_trace:
  "\<exists>tr. trace (update_rows ev rs s) = trace s @ tr
     \<and> tags_from (Suc (totalProcessed s)) tr \<and> tags_upto (totalProcessed s + length rs) tr"
proof (induction rs arbitrary: s)
  case Nil
  show ?case by (simp add: tags_from_def tags_upto_def)
next
  case (Cons r rs)
  obtain t1 where t1: "trace (update_row ev r s) = trace s @ t1"
    "tags_from (Suc (totalProcessed s)) t1" "tags_upto (Suc (totalProcessed s)) t1"
    using update_row_trace by blast
  obtain t2 where t2: "trace (update_rows ev rs (update_row ev r s)) = trace (update_row ev r s) @ t2"
    "tags_from (Suc (totalProcessed (update_row ev r s))) t2"
    "tags_upto (totalProcessed (update_row ev r s) + length rs) t2"
    using Cons.IH by blast
  have "tags_from (Suc (totalProcessed s)) t2"
    using t2(2) by (rule tags_from_mono) simp
  moreover have "tags_upto (totalProcessed s + length (r # rs)) t1"
    using t1(3) by (rule tags_upto_mono) simp
  ultimately show ?case using t1 t2 by simp
qed

lemma u_before_total [simp]: "k \<le> length csvRows \<Longrightarrow> totalProcessed (u_before ev csvRows c k) = k"
  by (simp add: u_before_def ustate_init_def)

lemma u_before_Suc:
  "k < length csvRows \<Longrightarrow> u_before ev csvRows c (Suc k) = update_row ev (csvRows ! k) (u_before ev csvRows c k)"
  by (simp add: u_before_def take_Suc_conv_app_nth update_rows_append)

lemma u_before_tags: "k \<le> length csvRows \<Longrightarrow> tags_upto k (trace (u_before ev csvRows c k))"
  using update_rows_trace [of ev "take k csvRows" "ustate_init c"]
  by (auto simp: u_before_def ustate_init_def)

lemma u_before_fresh:
  "k \<le> length csvRows \<Longrightarrow> row_events (Suc k) (trace (u_before ev csvRows c k)) = []"
  by (rule row_events_tags_upto [OF u_before_tags]) simp_all

lemma update_rows_split:
  "k < length csvRows \<Longrightarrow>
   update_rows ev csvRows (ustate_init c)
     = update_rows ev (drop (Suc k) csvRows) (update_row ev (csvRows ! k) (u_before ev csvRows c k))"
proof -
  assume k: "k < length csvRows"
  have "csvRows = take (Suc k) csvRows @ drop (Suc k) csvRows" by simp
  then have "update_rows ev csvRows (ustate_init c)
      = update_rows ev (drop (Suc k) csvRows) (u_before ev csvRows c (Suc k))"
    by (metis update_rows_append u_before_def)
  with k show ?thesis by (simp add: u_before_Suc)
qed

lemma update_rows_row_events:
  assumes "k < length csvRows"
  shows "row_events (Suc k) (trace (update_rows ev csvRows (ustate_init c)))
       = row_events (Suc k) (trace (update_row ev (csvRows ! k) (u_before ev csvRows c k)))"
proof -
  let ?a = "update_row ev (csvRows ! k) (u_before ev csvRows c k)"
  obtain t where t: "trace (update_rows ev (drop (Suc k) csvRows) ?a) = trace ?a @ t"
    "tags_from (Suc (totalProcessed ?a)) t"
    using update_rows_trace by blast
  from assms have "totalProcessed ?a = Suc k" by simp
  with t(2) have "row_events (Suc k) t = []"
    by (intro row_events_tags_from [where n = "Suc (Suc k)"]) simp_all
  with t(1) update_rows_split [OF assms, of ev c] show ?thesis by simp
qed

subsection \<open>One row of the enrichment variant\<close>

lemma emit_estate [simp]: "currentIndex (emit i e s) = currentIndex s"
  by (simp add: emit_def)

lemma process_row_outside:
  "\<not> in_range startRange endRange (Suc (currentIndex s)) \<Longrightarrow>
   process_row ev startRange endRange r s = s\<lparr>currentIndex := Suc (currentIndex s)\<rparr>"
  by (simp add: process_row_def Let_def)

lemma process_row_no_email:
  "in_range startRange endRange (Suc (currentIndex s)) \<Longrightarrow> customer_email r = None \<Longrightarrow>
   process_row ev startRange endRange r s
     = emit (Suc (currentIndex s)) (Log Error) (s\<lparr>currentIndex := Suc (currentIndex s)\<rparr>)"
  by (simp add: process_row_def process_try_def Let_def)

lemma process_row_find_fails:
  "in_range startRange endRange (Suc (currentIndex s)) \<Longrightarrow> customer_email r = Some raw \<Longrightarrow>
   findOne_fails ev (Suc (currentIndex s)) \<Longrightarrow>
   process_row ev startRange endRange r s
     = emit (Suc (currentIndex s)) (Log Error)
        (emit (Suc (currentIndex s)) (FindOne (toLowerCase raw))
          (s\<lparr>currentIndex := Suc (currentIndex s)\<rparr>))"
  by (simp add: process_row_def process_try_def Let_def)

lemma process_row_existing:
  "in_range startRange endRange (Suc (currentIndex s)) \<Longrightarrow> customer_email r = Some raw \<Longrightarrow>
   \<not> findOne_fails ev (Suc (currentIndex s)) \<Longrightarrow>
   findOne (store s) (toLowerCase raw) = Some d \<Longrightarrow>
   process_row ev startRange endRange r s
     = emit (Suc (currentIndex s)) (Log AlreadyProcessed)
        (emit (Suc (currentIndex s)) (FindOne (toLowerCase raw))
          (s\<lparr>currentIndex := Suc (currentIndex s)\<rparr>))"
  by (simp add: process_row_def process_try_def Let_def)

lemma process_row_rejected:
  "in_range startRange endRange (Suc (currentIndex s)) \<Longrightarrow> customer_email r = Some raw \<Longrightarrow>
   \<not> findOne_fails ev (Suc (currentIndex s)) \<Longrightarrow>
   findOne (store s) (toLowerCase raw) = None \<Longrightarrow>
   api ev (Suc (currentIndex s)) (toLowerCase raw) = None \<Longrightarrow>
   process_row ev startRange endRange r s
     = emit (Suc (currentIndex s)) (Log Error)
        (emit (Suc (currentIndex s)) (Post (toLowerCase raw))
          (emit (Suc (currentIndex s)) (FindOne (toLowerCase raw))
            (s\<lparr>currentIndex := Suc (currentIndex s)\<rparr>)))"
  by (simp add: process_row_def process_try_def Let_def)

lemma process_row_insert_fails:
  "in_range startRange endRange (Suc (currentIndex s)) \<Longrightarrow> customer_email r = Some raw \<Longrightarrow>
   \<not> findOne_fails ev (Suc (currentIndex s)) \<Longrightarrow>
   findOne (store s) (toLowerCase raw) = None \<Longrightarrow>
   api ev (Suc (currentIndex s)) (toLowerCase raw) = Some payload \<Longrightarrow>
   insertOne_fails ev (Suc (currentIndex s)) \<Longrightarrow>
   d = [(''email'', Str (toLowerCase raw)), (''data'', Payload payload),
        (''processedAt'', Date (now ev (Suc (currentIndex s))))] \<Longrightarrow>
   process_row ev startRange endRange r s
     = emit (Suc (currentIndex s)) (Log Error)
        (emit (Suc (currentIndex s)) (InsertOne d)
          (emit (Suc (currentIndex s)) (Post (toLowerCase raw))
            (emit (Suc (currentIndex s)) (FindOne (toLowerCase raw))
              (s\<lparr>currentIndex := Suc (currentIndex s)\<rparr>))))"
  by (simp add: process_row_def process_try_def Let_def)

lemma process_row_inserted:
  "in_range startRange endRange (Suc (currentIndex s)) \<Longrightarrow> customer_email r = Some raw \<Longrightarrow>
   \<not> findOne_fails ev (Suc (currentIndex s)) \<Longrightarrow>
   findOne (store s) (toLowerCase raw) = None \<Longrightarrow>
   api ev (Suc (currentIndex s)) (toLowerCase raw) = Some payload \<Longrightarrow>
   \<not> insertOne_fails ev (Suc (currentIndex s)) \<Longrightarrow>
   d = [(''email'', Str (toLowerCase raw)), (''data'', Payload payload),
        (''processedAt'', Date (now ev (Suc (currentIndex s))))] \<Longrightarrow>
   process_row ev startRange endRange r s
     = emit (Suc (currentIndex s)) (Delay 1000)
        (emit (Suc (currentIndex s)) (Log Processed)
          (emit (Suc (currentIndex s)) (InsertOne d)
            (emit (Suc (currentIndex s)) (Post (toLowerCase raw))
              (emit (Suc (currentIndex s)) (FindOne (toLowerCase raw))
                (s\<lparr>currentIndex := Suc (currentIndex s),
                   store := insertOne (store s) d\<rparr>)))))"
  by (simp add: process_row_def process_try_def Let_def emit_def)

lemma process_row_outcomes
  [case_names outside no_email find_fails existing rejected insert_fails inserted]:
  obtains
    (outside)
      "\<not> in_range startRange endRange (Suc (currentIndex s))"
      "process_row ev startRange endRange r s = s\<lparr>currentIndex := Suc (currentIndex s)\<rparr>"
  | (no_email)
      "in_range startRange endRange (Suc (currentIndex s))" "customer_email r = None"
      "process_row ev startRange endRange r s
         = emit (Suc (currentIndex s)) (Log Error) (s\<lparr>currentIndex := Suc (currentIndex s)\<rparr>)"
  | (find_fails) raw where
      "in_range startRange endRange (Suc (currentIndex s))" "customer_email r = Some raw"
      "findOne_fails ev (Suc (currentIndex s))"
      "process_row ev startRange endRange r s
         = emit (Suc (currentIndex s)) (Log Error)
            (emit (Suc (currentIndex s)) (FindOne (toLowerCase raw))
              (s\<lparr>currentIndex := Suc (currentIndex s)\<rparr>))"
  | (existing) raw d where
      "in_range startRange endRange (Suc (currentIndex s))" "customer_email r = Some raw"
      "\<not> findOne_fails ev (Suc (currentIndex s))"
      "findOne (store s) (toLowerCase raw) = Some d"
      "process_row ev startRange endRange r s
         = emit (Suc (currentIndex s)) (Log AlreadyProcessed)
            (emit (Suc (currentIndex s)) (FindOne (toLowerCase raw))
              (s\<lparr>currentIndex := Suc (currentIndex s)\<rparr>))"
  | (rejected) raw where
      "in_range startRange endRange (Suc (currentIndex s))" "customer_email r = Some raw"
      "\<not> findOne_fails ev (Suc (currentIndex s))"
      "findOne (store s) (toLowerCase raw) = None"
      "api ev (Suc (currentIndex s)) (toLowerCase raw) = None"
      "process_row ev startRange endRange r s
         = emit (Suc (currentIndex s)) (Log Error)
            (emit (Suc (currentIndex s)) (Post (toLowerCase raw))
              (emit (Suc (currentIndex s)) (FindOne (toLowerCase raw))
                (s\<lparr>currentIndex := Suc (currentIndex s)\<rparr>)))"
  | (insert_fails) raw payload d where
      "in_range startRange endRange (Suc (currentIndex s))" "customer_email r = Some raw"
      "\<not> findOne_fails ev (Suc (currentIndex s))"
      "findOne (store s) (toLowerCase raw) = None"
      "api ev (Suc (currentIndex s)) (toLowerCase raw) = Some payload"
      "insertOne_fails ev (Suc (currentIndex s))"
      "d = [(''email'', Str (toLowerCase raw)), (''data'', Payload payload),
            (''processedAt'', Date (now ev (Suc (currentIndex s))))]"
      "process_row ev startRange endRange r s
         = emit (Suc (currentIndex s)) (Log Error)
            (emit (Suc (currentIndex s)) (InsertOne d)
              (emit (Suc (currentIndex s)) (Post (toLowerCase raw))
                (emit (Suc (currentIndex s)) (FindOne (toLowerCase raw))
                  (s\<lparr>currentIndex := Suc (currentIndex s)\<rparr>))))"
  | (inserted) raw payload d where
      "in_range startRange endRange (Suc (currentIndex s))" "customer_email r = Some raw"
      "\<not> findOne_fails ev (Suc (currentIndex s))"
      "findOne (store s) (toLowerCase raw) = None"
      "api ev (Suc (currentIndex s)) (toLowerCase raw) = Some payload"
      "\<not> insertOne_fails ev (Suc (currentIndex s))"
      "d = [(''email'', Str (toLowerCase raw)), (''data'', Payload payload),
            (''processedAt'', Date (now ev (Suc (currentIndex s))))]"
      "process_row ev startRange endRange r s
         = emit (Suc (currentIndex s)) (Delay 1000)
            (emit (Suc (currentIndex s)) (Log Processed)
              (emit (Suc (currentIndex s)) (InsertOne d)
                (emit (Suc (currentIndex s)) (Post (toLowerCase raw))
                  (emit (Suc (currentIndex s)) (FindOne (toLowerCase raw))
                    (s\<lparr>currentIndex := Suc (currentIndex s),
                       store := insertOne (store s) d\<rparr>)))))"
proof (cases "in_range startRange endRange (Suc (currentIndex s))")
  case False
  from this process_row_outside [OF this] show ?thesis by (rule outside)
next
  case inr: True
  show ?thesis
  proof (cases "customer_email r")
    case None
    from inr this process_row_no_email [OF inr this] show ?thesis by (rule no_email)
  next
    case (Some raw)
    show ?thesis
    proof (cases "findOne_fails ev (Suc (currentIndex s))")
      case True
      from inr Some this process_row_find_fails [OF inr Some this]
      show ?thesis by (rule find_fails)
    next
      case nf: False
      show ?thesis
      proof (cases "findOne (store s) (toLowerCase raw)")
        case (Some d)
        from inr \<open>customer_email r = Some raw\<close> nf this
          process_row_existing [OF inr \<open>customer_email r = Some raw\<close> nf this]
        show ?thesis by (rule existing)
      next
        case None
        note raw = \<open>customer_email r = Some raw\<close>
        show ?thesis
        proof (cases "api ev (Suc (currentIndex s)) (toLowerCase raw)")
          case no: None
          from inr raw nf None no process_row_rejected [OF inr raw nf None no]
          show ?thesis by (rule rejected)
        next
          case (Some payload)
          show ?thesis
          proof (cases "insertOne_fails ev (Suc (currentIndex s))")
            case True
            from inr raw nf None Some this refl
              process_row_insert_fails [OF inr raw nf None Some this refl]
            show ?thesis by (rule insert_fails)
          next
            case False
            from inr raw nf None Some this refl
              process_row_inserted [OF inr raw nf None Some this refl]
            show ?thesis by (rule inserted)
          qed
        qed
      qed
    qed
  qed
qed

lemma process_row_index [simp]:
  "currentIndex (process_row ev startRange endRange r s) = Suc (currentIndex s)"
  by (cases ev startRange endRange r s rule: process_row_outcomes) simp_all

lemma process_row_trace:
  "\<exists>tr. trace (process_row ev startRange endRange r s) = trace s @ tr
     \<and> tags_from (Suc (currentIndex s)) tr \<and> tags_upto (Suc (currentIndex s)) tr
     \<and> (tr \<noteq> [] \<longrightarrow> in_range startRange endRange (Suc (currentIndex s)))"
  by (cases ev startRange endRange r s rule: process_row_outcomes)
     (simp_all add: tags_from_def tags_upto_def)

subsection \<open>The loop of the enrichment variant\<close>

lemma process_rows_append:
  "process_rows ev startRange endRange (xs @ ys) s
     = process_rows ev startRange endRange ys (process_rows ev startRange endRange xs s)"
  by (induction xs arbitrary: s) simp_all

lemma process_rows_index [simp]:
  "currentIndex (process_rows ev startRange endRange rs s) = currentIndex s + length rs"
  by (induction rs arbitrary: s) simp_all

lemma process_rows_trace:
  "\<exists>tr. trace (process_rows ev startRange endRange rs s) = trace s @ tr
     \<and> tags_from (Suc (currentIndex s)) tr \<and> tags_upto (currentIndex s + length rs) tr
     \<and> list_all (\<lambda>p. in_range startRange endRange (fst p)) tr"
proof (induction rs arbitrary: s)
  case Nil
  show ?case by (simp add: tags_from_def tags_upto_def)
next
  case (Cons r rs)
  let ?s1 = "process_row ev startRange endRange r s"
  obtain t1 where t1: "trace ?s1 = trace s @ t1"
    "tags_from (Suc (currentIndex s)) t1" "tags_upto (Suc (currentIndex s)) t1"
    "t1 \<noteq> [] \<longrightarrow> in_range startRange endRange (Suc (currentIndex s))"
    using process_row_trace by blast
  obtain t2 where t2: "trace (process_rows ev startRange endRange rs ?s1) = trace ?s1 @ t2"
    "tags_from (Suc (currentIndex ?s1)) t2" "tags_upto (currentIndex ?s1 + length rs) t2"
    "list_all (\<lambda>p. in_range startRange endRange (fst p)) t2"
    using Cons.IH by blast
  have "tags_from (Suc (currentIndex s)) t2"
    using t2(2) by (rule tags_from_mono) simp
  moreover have "tags_upto (currentIndex s + length (r # rs)) t1"
    using t1(3) by (rule tags_upto_mono) simp
  moreover have "list_all (\<lambda>p. in_range startRange endRange (fst p)) t1"
  proof (cases "t1 = []")
    case True
    then show ?thesis by simp
  next
    case False
    with t1(4) have inr: "in_range startRange endRange (Suc (currentIndex s))" by simp
    have "fst p = Suc (currentIndex s)" if "p \<in> set t1" for p
      using that t1(2,3) by (fastforce simp: tags_from_def tags_upto_def list_all_iff)
    with inr show ?thesis by (simp add: list_all_iff)
  qed
  ultimately show ?case using t1 t2 by simp
qed

lemma e_before_index [simp]:
  "k \<le> length rows \<Longrightarrow> currentIndex (e_before ev startRange endRange rows c k) = k"
  by (simp add: e_before_def estate_init_def)

lemma e_before_Suc:
  "k < length rows \<Longrightarrow>
   e_before ev startRange endRange rows c (Suc k)
     = process_row ev startRange endRange (rows ! k) (e_before ev startRange endRange rows c k)"
  by (simp add: e_before_def take_Suc_conv_app_nth process_rows_append)

lemma e_before_tags:
  "k \<le> length rows \<Longrightarrow> tags_upto k (trace (e_before ev startRange endRange rows c k))"
  using process_rows_trace [of ev startRange endRange "take k rows" "estate_init c"]
  by (auto simp: e_before_def estate_init_def)

lemma e_before_fresh:
  "k \<le> length rows \<Longrightarrow>
   row_events (Suc k) (trace (e_before ev startRange endRange rows c k)) = []"
  by (rule row_events_tags_upto [OF e_before_tags]) simp_all

lemma process_rows_split:
  "k < length rows \<Longrightarrow>
   process_rows ev startRange endRange rows (estate_init c)
     = process_rows ev startRange endRange (drop (Suc k) rows)
         (process_row ev startRange endRange (rows ! k)
            (e_before ev startRange endRange rows c k))"
proof -
  assume k: "k < length rows"
  have "rows = take (Suc k) rows @ drop (Suc k) rows" by simp
  then have "process_rows ev startRange endRange rows (estate_init c)
      = process_rows ev startRange endRange (drop (Suc k) rows)
          (e_before ev startRange endRange rows c (Suc k))"
    by (metis process_rows_append e_before_def)
  with k show ?thesis by (simp add: e_before_Suc)
qed

lemma process_rows_row_events:
  assumes "k < length rows"
  shows "row_events (Suc k) (trace (process_rows ev startRange endRange rows (estate_init c)))
       = row_events (Suc k) (trace (process_row ev startRange endRange (rows ! k)
            (e_before ev startRange endRange rows c k)))"
proof -
  let ?a = "process_row ev startRange endRange (rows ! k)
    (e_before ev startRange endRange rows c k)"
  obtain t where t: "trace (process_rows ev startRange endRange (drop (Suc k) rows) ?a) = trace ?a @ t"
    "tags_from (Suc (currentIndex ?a)) t"
    using process_rows_trace by blast
  from assms have "currentIndex ?a = Suc k" by simp
  with t(2) have "row_events (Suc k) t = []"
    by (intro row_events_tags_from [where n = "Suc (Suc k)"]) simp_all
  with t(1) process_rows_split [OF assms, of ev startRange endRange c] show ?thesis by simp
qed

section \<open>Further facts about the update variant\<close>

lemma trim_nonempty: "trim x \<noteq> [] \<Longrightarrow> x \<noteq> []"
  by (auto simp: trim_def)

lemma updateData_store_id:
  "(''external_store_id'', v) \<in> set (updateData (map_option trim a) b t) \<Longrightarrow>
   \<exists>x. a = Some x \<and> x \<noteq> [] \<and> v = Str (trim x)"
  by (cases a) (auto simp: updateData_def trim_nonempty split: option.splits if_splits)

lemma updateData_store_name:
  "(''store_name'', v) \<in> set (updateData a (map_option trim b) t) \<Longrightarrow>
   \<exists>x. b = Some x \<and> x \<noteq> [] \<and> v = Str (trim x)"
  by (cases b) (auto simp: updateData_def trim_nonempty split: option.splits if_splits)

lemma update_rows_emails: "emails (store (update_rows ev rs s)) = emails (store s)"
  by (induction rs arbitrary: s) (simp_all add: update_row_emails)

lemma update_rows_balance:
  "totalProcessed (update_rows ev rs s)
     + (updatedRecords s + notFoundRecords s + errorRecords s + no_change_count (trace s))
   = totalProcessed s
     + (updatedRecords (update_rows ev rs s) + notFoundRecords (update_rows ev rs s)
        + errorRecords (update_rows ev rs s) + no_change_count (trace (update_rows ev rs s)))"
proof (induction rs arbitrary: s)
  case Nil
  show ?case by simp
next
  case (Cons r rs)
  from Cons.IH [of "update_row ev r s"] update_row_balance [of ev r s]
  show ?case by simp
qed

lemma update_rows_no_insert:
  "list_all (\<lambda>p. \<not> is_insert (snd p)) (trace s) \<Longrightarrow>
   list_all (\<lambda>p. \<not> is_insert (snd p)) (trace (update_rows ev rs s))"
  by (induction rs arbitrary: s) (simp_all add: update_row_no_insert)

lemma acme_email: "trim (toLowerCase ''A@X.com'') = ''a@x.com''"
  by code_simp

lemma blank_email: "trim (toLowerCase ''  '') = []"
  by code_simp

lemma stranger_email: "trim (toLowerCase ''nobody@y.org'') = ''nobody@y.org''"
  by code_simp

lemma updateStoreInfo_steady:
  "updateStoreInfo steady_env csvRows c = Inr (update_rows steady_env csvRows (ustate_init c))"
  by (simp add: updateStoreInfo_def steady_env_def)

section \<open>Claims about the update variant\<close>

text \<open>
  C1, as stated: at job end \<open>totalProcessed = updated + notFound + errors\<close>. This fails
  when the input names the same stored email twice and both rows are stamped with the same
  clock reading: the second update changes nothing, \<^verbatim>\<open>modifiedCount\<close> is 0, and the row
  is counted in \<open>totalProcessed\<close> only. The run below ends with the counters
  \<open>(2, 1, 0, 0)\<close>.
\<close>

theorem totals_counterexample:
  "updateStoreInfo steady_env [acme_row, acme_row] acme_store
     = Inr (update_rows steady_env [acme_row, acme_row] (ustate_init acme_store))
   \<and> counters (update_rows steady_env [acme_row, acme_row] (ustate_init acme_store))
       = (2, 1, 0, 0)
   \<and> totalProcessed (update_rows steady_env [acme_row, acme_row] (ustate_init acme_store))
       \<noteq> updatedRecords (update_rows steady_env [acme_row, acme_row] (ustate_init acme_store))
         + notFoundRecords (update_rows steady_env [acme_row, acme_row] (ustate_init acme_store))
         + errorRecords (update_rows steady_env [acme_row, acme_row] (ustate_init acme_store))"
proof -
  have "counters (update_rows steady_env [acme_row, acme_row] (ustate_init acme_store))
      = (2, 1, 0, 0)"
    by code_simp
  then show ?thesis
    by (simp add: counters_def updateStoreInfo_steady)
qed

text \<open>
  C1, amended: at job end \<open>totalProcessed\<close> is the sum of \<open>updated\<close>, \<open>notFound\<close>,
  \<open>errors\<close> and the number of rows whose update left the stored document unchanged
  (those reported as needing no changes), for every input and every initial collection.
\<close>

theorem totals_balance:
  "updateStoreInfo ev csvRows c = Inr s \<Longrightarrow>
   totalProcessed s
     = updatedRecords s + notFoundRecords s + errorRecords s + no_change_count (trace s)"
  using update_rows_balance [of ev csvRows "ustate_init c"]
  by (auto simp: updateStoreInfo_def ustate_init_def no_change_count_def split: if_splits)

theorem totals_balance_witness:
  "updateStoreInfo steady_env [acme_row, acme_row] acme_store
     = Inr (update_rows steady_env [acme_row, acme_row] (ustate_init acme_store))
   \<and> totalProcessed (update_rows steady_env [acme_row, acme_row] (ustate_init acme_store)) = 2
   \<and> no_change_count
        (trace (update_rows steady_env [acme_row, acme_row] (ustate_init acme_store))) = 1"
proof -
  let ?s = "update_rows steady_env [acme_row, acme_row] (ustate_init acme_store)"
  have run: "updateStoreInfo steady_env [acme_row, acme_row] acme_store = Inr ?s"
    by (rule updateStoreInfo_steady)
  have "counters ?s = (2, 1, 0, 0)"
    by code_simp
  then have "totalProcessed ?s = 2" "updatedRecords ?s + notFoundRecords ?s + errorRecords ?s = 1"
    by (simp_all add: counters_def)
  with run totals_balance [OF run] show ?thesis by simp
qed

text \<open>
  C2: when the lookup of a row of the update variant returns a stored record, the row issues
  one write, an update keyed by the normalised email. Its update document holds
  \<open>external_store_id\<close> only if the row's column is non-empty (the value is the trimmed
  column), \<open>store_name\<close> only if the row's \<open>name\<close> is non-empty, and always
  \<open>store_info_updated_at\<close> with the clock reading. Unless the write throws, the first
  matching document becomes the merge of itself with the update document, all other documents
  stay as they were, and in the merged document every field that the update document does
  not name keeps its value.
\<close>

theorem update_document:
  assumes run: "updateStoreInfo ev csvRows c = Inr s" and k: "k < length csvRows"
    and raw: "customer_email (csvRows ! k) = Some raw" "trim (toLowerCase raw) \<noteq> []"
    and found: "\<not> findOne_fails ev (Suc k)"
      "findOne (store (u_before ev csvRows c k)) (trim (toLowerCase raw)) = Some d"
    and upd: "upd = updateData (map_option trim (external_store_id (csvRows ! k)))
                (map_option trim (name (csvRows ! k))) (now ev (Suc k))"
  shows "filter is_write (row_events (Suc k) (trace s)) = [UpdateOne (trim (toLowerCase raw)) upd]
       \<and> (\<forall>v. (''external_store_id'', v) \<in> set upd \<longrightarrow>
            (\<exists>x. external_store_id (csvRows ! k) = Some x \<and> x \<noteq> [] \<and> v = Str (trim x)))
       \<and> (\<forall>v. (''store_name'', v) \<in> set upd \<longrightarrow>
            (\<exists>x. name (csvRows ! k) = Some x \<and> x \<noteq> [] \<and> v = Str (trim x)))
       \<and> map_of upd ''store_info_updated_at'' = Some (Date (now ev (Suc k)))
       \<and> (\<not> updateOne_fails ev (Suc k) \<longrightarrow>
            (\<exists>j<length (store (u_before ev csvRows c k)).
                store (u_before ev csvRows c k) ! j = d
              \<and> store (u_before ev csvRows c (Suc k))
                  = (store (u_before ev csvRows c k))[j := set_fields d upd])
            \<and> (\<forall>f v. (f, v) \<in> set upd \<longrightarrow> map_of (set_fields d upd) f = Some v)
            \<and> (\<forall>f. f \<notin> fst ` set upd \<longrightarrow> map_of (set_fields d upd) f = map_of d f))"
proof -
  let ?b = "u_before ev csvRows c k"
  let ?e = "trim (toLowerCase raw)"
  from run have s: "s = update_rows ev csvRows (ustate_init c)"
    by (simp add: updateStoreInfo_def split: if_splits)
  from k have tot: "totalProcessed ?b = k" by simp
  from k have fresh: "row_events (Suc (totalProcessed ?b)) (trace ?b) = []"
    by (simp add: u_before_fresh)
  have ev: "row_events (Suc k) (trace s)
      = row_events (Suc k) (trace (update_row ev (csvRows ! k) ?b))"
    unfolding s by (rule update_rows_row_events [OF k])
  from found(1) have nf: "\<not> findOne_fails ev (Suc (totalProcessed ?b))" by (simp add: tot)
  note row = update_row_found [OF raw nf found(2) fresh]
  have 1: "filter is_write (row_events (Suc k) (trace s)) = [UpdateOne ?e upd]"
    using row by (simp add: ev tot upd)
  have 2: "\<forall>v. (''external_store_id'', v) \<in> set upd \<longrightarrow>
            (\<exists>x. external_store_id (csvRows ! k) = Some x \<and> x \<noteq> [] \<and> v = Str (trim x))"
    unfolding upd by (blast dest: updateData_store_id)
  have 3: "\<forall>v. (''store_name'', v) \<in> set upd \<longrightarrow>
            (\<exists>x. name (csvRows ! k) = Some x \<and> x \<noteq> [] \<and> v = Str (trim x))"
    unfolding upd by (blast dest: updateData_store_name)
  have 4: "map_of upd ''store_info_updated_at'' = Some (Date (now ev (Suc k)))"
    by (simp add: upd updateData_def map_of_append split: option.splits)
  have 5: "\<exists>j<length (store ?b). store ?b ! j = d
              \<and> store (u_before ev csvRows c (Suc k)) = (store ?b)[j := set_fields d upd]"
    if "\<not> updateOne_fails ev (Suc k)"
  proof -
    from that row have "store (u_before ev csvRows c (Suc k)) = fst (updateOne (store ?b) ?e upd)"
      by (simp add: u_before_Suc [OF k] tot upd)
    with updateOne_found [OF found(2), of upd] show ?thesis by auto
  qed
  have 6: "\<forall>f v. (f, v) \<in> set upd \<longrightarrow> map_of (set_fields d upd) f = Some v"
    using set_fields_named [of upd _ _ d] updateData_distinct by (simp add: upd)
  have 7: "\<forall>f. f \<notin> fst ` set upd \<longrightarrow> map_of (set_fields d upd) f = map_of d f"
    by (simp add: set_fields_other)
  show ?thesis
    apply (intro conjI impI)
    using 1 apply assumption
    using 2 apply assumption
    using 3 apply assumption
    using 4 apply assumption
    using 5 apply blast
    using 6 apply assumption
    using 7 apply assumption
    done
qed

theorem update_document_witness:
  "updateStoreInfo steady_env [acme_row] acme_store
     = Inr (update_rows steady_env [acme_row] (ustate_init acme_store))
   \<and> findOne acme_store ''a@x.com'' = Some [(''email'', Str ''a@x.com'')]
   \<and> filter is_write (row_events 1 (trace (update_rows steady_env [acme_row] (ustate_init acme_store))))
       = [UpdateOne ''a@x.com''
            [(''external_store_id'', Str ''S1''), (''store_name'', Str ''Acme''),
             (''store_info_updated_at'', Date 5)]]
   \<and> store (u_before steady_env [acme_row] acme_store 1)
       = [[(''email'', Str ''a@x.com''), (''external_store_id'', Str ''S1''),
           (''store_name'', Str ''Acme''), (''store_info_updated_at'', Date 5)]]"
proof -
  let ?upd = "[(''external_store_id'', Str ''S1''), (''store_name'', Str ''Acme''),
               (''store_info_updated_at'', Date 5)]"
  let ?d = "[(''email'', Str ''a@x.com'')]"
  have k: "0 < length [acme_row]" by simp
  have raw: "customer_email ([acme_row] ! 0) = Some ''A@X.com''" by (simp add: acme_row_def)
  have ne: "trim (toLowerCase ''A@X.com'') \<noteq> []" by (simp add: acme_email)
  have nf: "\<not> findOne_fails steady_env (Suc 0)" by (simp add: steady_env_def)
  have nu: "\<not> updateOne_fails steady_env (Suc 0)" by (simp add: steady_env_def)
  have f0: "findOne acme_store ''a@x.com'' = Some ?d"
    by (simp add: findOne_def email_is_def acme_store_def)
  then have found: "findOne (store (u_before steady_env [acme_row] acme_store 0))
      (trim (toLowerCase ''A@X.com'')) = Some ?d"
    by (simp add: u_before_def ustate_init_def acme_email)
  have upd: "?upd = updateData (map_option trim (external_store_id ([acme_row] ! 0)))
      (map_option trim (name ([acme_row] ! 0))) (now steady_env (Suc 0))"
    by code_simp
  have sf: "set_fields ?d ?upd = ?d @ ?upd"
    by code_simp
  have b0: "store (u_before steady_env [acme_row] acme_store 0) = [?d]"
    by (simp add: u_before_def ustate_init_def acme_store_def)
  from update_document [OF updateStoreInfo_steady k raw ne nf found upd] nu
  have "filter is_write (row_events (Suc 0)
          (trace (update_rows steady_env [acme_row] (ustate_init acme_store))))
        = [UpdateOne (trim (toLowerCase ''A@X.com'')) ?upd]"
    and "\<exists>j<length (store (u_before steady_env [acme_row] acme_store 0)).
           store (u_before steady_env [acme_row] acme_store (Suc 0))
             = (store (u_before steady_env [acme_row] acme_store 0))[j := set_fields ?d ?upd]"
    by blast+
  then show ?thesis
    using f0 by (simp add: updateStoreInfo_steady acme_email b0 sf)
qed

text \<open>
  C3: a run of the update variant leaves the emails of the collection as they were,
  document by document, and issues no insert. A row whose lookup finds no record increments
  \<open>notFound\<close>, issues no write and leaves the collection unchanged.
\<close>

theorem update_never_inserts:
  assumes run: "updateStoreInfo ev csvRows c = Inr s"
  shows "emails (store s) = emails c
       \<and> list_all (\<lambda>p. \<not> is_insert (snd p)) (trace s)
       \<and> (\<forall>k raw. k < length csvRows \<and> customer_email (csvRows ! k) = Some raw
              \<and> trim (toLowerCase raw) \<noteq> [] \<and> \<not> findOne_fails ev (Suc k)
              \<and> findOne (store (u_before ev csvRows c k)) (trim (toLowerCase raw)) = None
            \<longrightarrow> notFoundRecords (u_before ev csvRows c (Suc k))
                  = notFoundRecords (u_before ev csvRows c k) + 1
                \<and> store (u_before ev csvRows c (Suc k)) = store (u_before ev csvRows c k)
                \<and> filter is_write (row_events (Suc k) (trace s)) = [])"
proof -
  from run have s: "s = update_rows ev csvRows (ustate_init c)"
    by (simp add: updateStoreInfo_def split: if_splits)
  have 1: "emails (store s) = emails c"
    unfolding s by (simp add: update_rows_emails ustate_init_def)
  have 2: "list_all (\<lambda>p. \<not> is_insert (snd p)) (trace s)"
    unfolding s by (rule update_rows_no_insert) (simp add: ustate_init_def)
  have 3: "notFoundRecords (u_before ev csvRows c (Suc k))
             = notFoundRecords (u_before ev csvRows c k) + 1
           \<and> store (u_before ev csvRows c (Suc k)) = store (u_before ev csvRows c k)
           \<and> filter is_write (row_events (Suc k) (trace s)) = []"
    if k: "k < length csvRows" and raw: "customer_email (csvRows ! k) = Some raw"
      "trim (toLowerCase raw) \<noteq> []" and nf: "\<not> findOne_fails ev (Suc k)"
      and none: "findOne (store (u_before ev csvRows c k)) (trim (toLowerCase raw)) = None"
    for k raw
  proof -
    let ?b = "u_before ev csvRows c k"
    from k have tot: "totalProcessed ?b = k" by simp
    from k have fresh: "row_events (Suc (totalProcessed ?b)) (trace ?b) = []"
      by (simp add: u_before_fresh)
    from nf have nf': "\<not> findOne_fails ev (Suc (totalProcessed ?b))" by (simp add: tot)
    have "row_events (Suc k) (trace s)
        = row_events (Suc k) (trace (update_row ev (csvRows ! k) ?b))"
      unfolding s by (rule update_rows_row_events [OF k])
    with update_row_not_found [OF raw nf' none fresh] show ?thesis
      by (simp add: u_before_Suc [OF k] tot)
  qed
  from 1 2 3 show ?thesis by blast
qed

theorem update_never_inserts_witness:
  "updateStoreInfo steady_env [stranger_row, acme_row] acme_store
     = Inr (update_rows steady_env [stranger_row, acme_row] (ustate_init acme_store))
   \<and> findOne acme_store ''nobody@y.org'' = None
   \<and> emails (store (update_rows steady_env [stranger_row, acme_row] (ustate_init acme_store)))
       = [Some (Str ''a@x.com'')]
   \<and> notFoundRecords (u_before steady_env [stranger_row, acme_row] acme_store 1) = 1
   \<and> store (u_before steady_env [stranger_row, acme_row] acme_store 1) = acme_store
   \<and> filter is_write (row_events 1
        (trace (update_rows steady_env [stranger_row, acme_row] (ustate_init acme_store)))) = []"
proof -
  let ?rows = "[stranger_row, acme_row]"
  have raw: "customer_email (?rows ! 0) = Some ''nobody@y.org''"
    by (simp add: stranger_row_def)
  have nf: "\<not> findOne_fails steady_env (Suc 0)" by (simp add: steady_env_def)
  have f0: "findOne acme_store ''nobody@y.org'' = None"
    by (simp add: findOne_def email_is_def acme_store_def)
  have b0: "u_before steady_env ?rows acme_store 0 = ustate_init acme_store"
    by (simp add: u_before_def)
  from update_never_inserts [OF updateStoreInfo_steady, of ?rows acme_store]
  have "emails (store (update_rows steady_env ?rows (ustate_init acme_store))) = emails acme_store"
    and "\<And>k raw. k < length ?rows \<and> customer_email (?rows ! k) = Some raw
              \<and> trim (toLowerCase raw) \<noteq> [] \<and> \<not> findOne_fails steady_env (Suc k)
              \<and> findOne (store (u_before steady_env ?rows acme_store k)) (trim (toLowerCase raw)) = None
            \<Longrightarrow> notFoundRecords (u_before steady_env ?rows acme_store (Suc k))
                  = notFoundRecords (u_before steady_env ?rows acme_store k) + 1
                \<and> store (u_before steady_env ?rows acme_store (Suc k))
                  = store (u_before steady_env ?rows acme_store k)
                \<and> filter is_write (row_events (Suc k)
                     (trace (update_rows steady_env ?rows (ustate_init acme_store)))) = []"
    by blast+
  note all = this
  from all(2) [of 0 "''nobody@y.org''"] raw nf f0
  have "notFoundRecords (u_before steady_env ?rows acme_store (Suc 0)) = 1
      \<and> store (u_before steady_env ?rows acme_store (Suc 0)) = acme_store
      \<and> filter is_write (row_events (Suc 0)
           (trace (update_rows steady_env ?rows (ustate_init acme_store)))) = []"
    by (simp add: stranger_email b0 ustate_init_def)
  moreover have "emails acme_store = [Some (Str ''a@x.com'')]"
    by (simp add: emails_def acme_store_def)
  ultimately show ?thesis
    using all(1) f0 by (simp add: updateStoreInfo_steady)
qed

text \<open>
  C6: in the update variant, a row whose email is missing, or empty once lowercased and
  trimmed, increments \<open>errors\<close> and issues no storage call; every other row issues
  exactly one lookup, keyed by the lowercased and trimmed email.
\<close>

theorem update_lookup_per_row:
  assumes run: "updateStoreInfo ev csvRows c = Inr s" and k: "k < length csvRows"
  shows "(customer_email (csvRows ! k) = None
            \<or> (\<exists>raw. customer_email (csvRows ! k) = Some raw \<and> trim (toLowerCase raw) = [])
          \<longrightarrow> errorRecords (u_before ev csvRows c (Suc k))
                = errorRecords (u_before ev csvRows c k) + 1
              \<and> filter is_storage (row_events (Suc k) (trace s)) = [])
       \<and> (\<forall>raw. customer_email (csvRows ! k) = Some raw \<and> trim (toLowerCase raw) \<noteq> []
          \<longrightarrow> filter is_lookup (row_events (Suc k) (trace s)) = [FindOne (trim (toLowerCase raw))])"
proof -
  let ?b = "u_before ev csvRows c k"
  from run have s: "s = update_rows ev csvRows (ustate_init c)"
    by (simp add: updateStoreInfo_def split: if_splits)
  from k have tot: "totalProcessed ?b = k" by simp
  from k have fresh: "row_events (Suc k) (trace ?b) = []" by (simp add: u_before_fresh)
  have ev: "row_events (Suc k) (trace s) = row_events (Suc k) (trace (update_row ev (csvRows ! k) ?b))"
    unfolding s by (rule update_rows_row_events [OF k])
  have "errorRecords (u_before ev csvRows c (Suc k)) = errorRecords ?b + 1
        \<and> filter is_storage (row_events (Suc k) (trace s)) = []"
    if "customer_email (csvRows ! k) = None
        \<or> (\<exists>raw. customer_email (csvRows ! k) = Some raw \<and> trim (toLowerCase raw) = [])"
    using update_row_missing [OF that, of ev ?b] fresh
    by (simp add: ev u_before_Suc [OF k] tot emit_def)
  moreover have "filter is_lookup (row_events (Suc k) (trace s)) = [FindOne (trim (toLowerCase raw))]"
    if "customer_email (csvRows ! k) = Some raw" "trim (toLowerCase raw) \<noteq> []" for raw
    using update_row_lookup [OF that, of ?b ev] fresh by (simp add: ev tot)
  ultimately show ?thesis by blast
qed

theorem update_lookup_per_row_witness:
  "updateStoreInfo steady_env [blank_row, acme_row] acme_store
     = Inr (update_rows steady_env [blank_row, acme_row] (ustate_init acme_store))
   \<and> errorRecords (u_before steady_env [blank_row, acme_row] acme_store 1)
       = errorRecords (u_before steady_env [blank_row, acme_row] acme_store 0) + 1
   \<and> filter is_storage (row_events 1
        (trace (update_rows steady_env [blank_row, acme_row] (ustate_init acme_store)))) = []
   \<and> filter is_lookup (row_events 2
        (trace (update_rows steady_env [blank_row, acme_row] (ustate_init acme_store))))
       = [FindOne ''a@x.com'']"
proof -
  let ?rows = "[blank_row, acme_row]"
  let ?s = "update_rows steady_env ?rows (ustate_init acme_store)"
  have run: "updateStoreInfo steady_env ?rows acme_store = Inr ?s"
    by (rule updateStoreInfo_steady)
  have b: "customer_email (?rows ! 0) = Some ''  ''" by (simp add: blank_row_def)
  have a: "customer_email (?rows ! 1) = Some ''A@X.com''" by (simp add: acme_row_def)
  from update_lookup_per_row [OF run, of 0] b blank_email
  have "errorRecords (u_before steady_env ?rows acme_store 1)
       = errorRecords (u_before steady_env ?rows acme_store 0) + 1
     \<and> filter is_storage (row_events 1 (trace ?s)) = []"
    by simp
  moreover from update_lookup_per_row [OF run, of 1] a acme_email
  have "filter is_lookup (row_events 2 (trace ?s)) = [FindOne ''a@x.com'']"
    by (simp add: numeral_2_eq_2)
  ultimately show ?thesis using run by simp
qed

section \<open>Further facts about the enrichment variant\<close>

lemma in_row_events: "e \<in> set (row_events i tr) \<longleftrightarrow> (i, e) \<in> set tr"
  by (induction tr) (auto split: if_splits)

lemma process_row_post:
  "Post e \<in> set (row_events (Suc (currentIndex s))
      (trace (process_row ev startRange endRange r s))) \<Longrightarrow>
   row_events (Suc (currentIndex s)) (trace s) = [] \<Longrightarrow>
   findOne (store s) e = None"
  by (cases ev startRange endRange r s rule: process_row_outcomes) auto

lemma process_row_skip:
  "in_range startRange endRange (Suc (currentIndex s)) \<Longrightarrow> customer_email r = Some raw \<Longrightarrow>
   \<not> findOne_fails ev (Suc (currentIndex s)) \<Longrightarrow>
   findOne (store s) (toLowerCase raw) = Some d \<Longrightarrow>
   row_events (Suc (currentIndex s)) (trace s) = [] \<Longrightarrow>
   row_events (Suc (currentIndex s)) (trace (process_row ev startRange endRange r s))
     = [FindOne (toLowerCase raw), Log AlreadyProcessed]
   \<and> store (process_row ev startRange endRange r s) = store s"
  by (simp add: process_row_existing)

lemma process_row_once:
  "in_range startRange endRange (Suc (currentIndex s)) \<Longrightarrow>
   row_events (Suc (currentIndex s)) (trace s) = [] \<Longrightarrow>
   length (filter is_log (row_events (Suc (currentIndex s))
      (trace (process_row ev startRange endRange r s)))) = 1
   \<and> length (filter is_lookup (row_events (Suc (currentIndex s))
      (trace (process_row ev startRange endRange r s)))) \<le> 1
   \<and> length (filter is_post (row_events (Suc (currentIndex s))
      (trace (process_row ev startRange endRange r s)))) \<le> 1
   \<and> length (filter is_insert (row_events (Suc (currentIndex s))
      (trace (process_row ev startRange endRange r s)))) \<le> 1
   \<and> (\<forall>raw. customer_email r = Some raw \<longrightarrow>
        filter is_lookup (row_events (Suc (currentIndex s))
          (trace (process_row ev startRange endRange r s))) = [FindOne (toLowerCase raw)])"
  by (cases ev startRange endRange r s rule: process_row_outcomes) simp_all

lemma process_row_untouched:
  "\<not> in_range startRange endRange (Suc (currentIndex s)) \<Longrightarrow>
   trace (process_row ev startRange endRange r s) = trace s
   \<and> store (process_row ev startRange endRange r s) = store s"
  by (simp add: process_row_outside)

lemma processEmails_Inr:
  "processEmails ev startRange endRange rows c = Inr s \<Longrightarrow>
   s = process_rows ev startRange endRange rows (estate_init c)"
  by (simp add: processEmails_def split: if_splits)

lemma processEmails_steady:
  "processEmails steady_env startRange endRange rows c
     = Inr (process_rows steady_env startRange endRange rows (estate_init c))"
  by (simp add: processEmails_def steady_env_def)

lemma process_rows_tags:
  "list_all (\<lambda>p. in_range startRange endRange (fst p) \<and> 1 \<le> fst p \<and> fst p \<le> length rows)
     (trace (process_rows ev startRange endRange rows (estate_init c)))"
proof -
  obtain tr where tr: "trace (process_rows ev startRange endRange rows (estate_init c))
      = trace (estate_init c) @ tr"
    "tags_from (Suc (currentIndex (estate_init c))) tr"
    "tags_upto (currentIndex (estate_init c) + length rows) tr"
    "list_all (\<lambda>p. in_range startRange endRange (fst p)) tr"
    using process_rows_trace by blast
  then show ?thesis
    by (auto simp: estate_init_def tags_from_def tags_upto_def list_all_iff)
qed

section \<open>Claims about the enrichment variant\<close>

text \<open>
  C4: in the enrichment variant, every request to the matching service is made for an email
  that the collection did not hold when that row was looked up. A row whose lookup finds a
  record does the lookup and reports the skip, nothing else: no request, no insert, and the
  collection is unchanged.
\<close>

theorem enrichment_skips_existing:
  assumes run: "processEmails ev startRange endRange rows c = Inr s"
  shows "(\<forall>i e. (i, Post e) \<in> set (trace s) \<longrightarrow>
            1 \<le> i \<and> i \<le> length rows
            \<and> findOne (store (e_before ev startRange endRange rows c (i - 1))) e = None)
       \<and> (\<forall>k raw d. k < length rows \<and> in_range startRange endRange (Suc k)
              \<and> customer_email (rows ! k) = Some raw \<and> \<not> findOne_fails ev (Suc k)
              \<and> findOne (store (e_before ev startRange endRange rows c k)) (toLowerCase raw)
                  = Some d
            \<longrightarrow> row_events (Suc k) (trace s) = [FindOne (toLowerCase raw), Log AlreadyProcessed]
                \<and> store (e_before ev startRange endRange rows c (Suc k))
                    = store (e_before ev startRange endRange rows c k))"
proof -
  note s = processEmails_Inr [OF run]
  have 1: "1 \<le> i \<and> i \<le> length rows
      \<and> findOne (store (e_before ev startRange endRange rows c (i - 1))) e = None"
    if post: "(i, Post e) \<in> set (trace s)" for i e
  proof -
    from post process_rows_tags [of startRange endRange rows ev c]
    have i: "1 \<le> i" "i \<le> length rows"
      unfolding s by (auto simp: list_all_iff)
    define k where "k = i - 1"
    with i have k: "k < length rows" "i = Suc k" by simp_all
    let ?b = "e_before ev startRange endRange rows c k"
    from k have idx: "currentIndex ?b = k" by simp
    from post have "Post e \<in> set (row_events (Suc k) (trace s))"
      by (simp add: in_row_events k)
    then have "Post e \<in> set (row_events (Suc (currentIndex ?b))
        (trace (process_row ev startRange endRange (rows ! k) ?b)))"
      unfolding s by (simp add: process_rows_row_events [OF k(1)] idx)
    moreover from k have "row_events (Suc (currentIndex ?b)) (trace ?b) = []"
      by (simp add: e_before_fresh)
    ultimately have "findOne (store ?b) e = None" by (rule process_row_post)
    with i show ?thesis by (simp add: k_def)
  qed
  have 2: "row_events (Suc k) (trace s) = [FindOne (toLowerCase raw), Log AlreadyProcessed]
      \<and> store (e_before ev startRange endRange rows c (Suc k))
          = store (e_before ev startRange endRange rows c k)"
    if k: "k < length rows" and inr: "in_range startRange endRange (Suc k)"
      and raw: "customer_email (rows ! k) = Some raw" and nf: "\<not> findOne_fails ev (Suc k)"
      and found: "findOne (store (e_before ev startRange endRange rows c k)) (toLowerCase raw)
        = Some d"
    for k raw d
  proof -
    let ?b = "e_before ev startRange endRange rows c k"
    from k have idx: "currentIndex ?b = k" by simp
    from k have fresh: "row_events (Suc (currentIndex ?b)) (trace ?b) = []"
      by (simp add: e_before_fresh)
    from inr nf have "in_range startRange endRange (Suc (currentIndex ?b))"
      "\<not> findOne_fails ev (Suc (currentIndex ?b))" by (simp_all add: idx)
    from process_row_skip [OF this(1) raw this(2) found fresh] show ?thesis
      unfolding s by (simp add: process_rows_row_events [OF k] e_before_Suc [OF k] idx)
  qed
  from 1 2 show ?thesis by blast
qed

theorem enrichment_skips_existing_witness:
  "processEmails steady_env 1 400 [acme_row, stranger_row] acme_store
     = Inr (process_rows steady_env 1 400 [acme_row, stranger_row] (estate_init acme_store))
   \<and> findOne acme_store (toLowerCase ''A@X.com'') = Some [(''email'', Str ''a@x.com'')]
   \<and> row_events 1
        (trace (process_rows steady_env 1 400 [acme_row, stranger_row] (estate_init acme_store)))
       = [FindOne ''a@x.com'', Log AlreadyProcessed]
   \<and> (2, Post ''nobody@y.org'')
        \<in> set (trace (process_rows steady_env 1 400 [acme_row, stranger_row]
                   (estate_init acme_store)))
   \<and> findOne (store (e_before steady_env 1 400 [acme_row, stranger_row] acme_store 1))
        ''nobody@y.org'' = None"
proof -
  let ?rows = "[acme_row, stranger_row]"
  let ?s = "process_rows steady_env 1 400 ?rows (estate_init acme_store)"
  have lc: "toLowerCase ''A@X.com'' = ''a@x.com''" by code_simp
  have raw: "customer_email (?rows ! 0) = Some ''A@X.com''" by (simp add: acme_row_def)
  have inr: "in_range 1 400 (Suc 0)" by (simp add: in_range_def)
  have nf: "\<not> findOne_fails steady_env (Suc 0)" by (simp add: steady_env_def)
  have f0: "findOne acme_store (toLowerCase ''A@X.com'') = Some [(''email'', Str ''a@x.com'')]"
    by (simp add: lc findOne_def email_is_def acme_store_def)
  then have found: "findOne (store (e_before steady_env 1 400 ?rows acme_store 0))
      (toLowerCase ''A@X.com'') = Some [(''email'', Str ''a@x.com'')]"
    by (simp add: e_before_def estate_init_def)
  have post: "(2, Post ''nobody@y.org'') \<in> set (trace ?s)"
    by code_simp
  note inst = enrichment_skips_existing [OF processEmails_steady, of 1 400 ?rows acme_store]
  from inst raw inr nf found
  have "row_events (Suc 0) (trace ?s) = [FindOne (toLowerCase ''A@X.com''), Log AlreadyProcessed]"
    by simp
  moreover from inst post
  have "findOne (store (e_before steady_env 1 400 ?rows acme_store (2 - 1))) ''nobody@y.org''
      = None"
    by blast
  ultimately show ?thesis
    using f0 post by (simp add: processEmails_steady lc)
qed

text \<open>
  C5: when connection and ingestion succeed, the enrichment variant completes for every
  range, also one that ends beyond the input, and visits every row. All calls belong to rows
  whose 1-based position is in the range; a row outside it gives rise to no call at all and
  leaves the collection unchanged; a row inside it is processed once: it reports one outcome
  and issues at most one lookup, one request and one insert, with the lookup keyed by the
  lowercased email whenever the row has one.
\<close>

theorem enrichment_range:
  assumes ok: "\<not> connect_fails ev" "\<not> ingest_fails ev"
  shows "\<exists>s. processEmails ev startRange endRange rows c = Inr s
       \<and> currentIndex s = length rows
       \<and> list_all (\<lambda>p. in_range startRange endRange (fst p) \<and> 1 \<le> fst p \<and> fst p \<le> length rows)
           (trace s)
       \<and> (\<forall>k<length rows. \<not> in_range startRange endRange (Suc k) \<longrightarrow>
             row_events (Suc k) (trace s) = []
             \<and> store (e_before ev startRange endRange rows c (Suc k))
                 = store (e_before ev startRange endRange rows c k))
       \<and> (\<forall>k<length rows. in_range startRange endRange (Suc k) \<longrightarrow>
             length (filter is_log (row_events (Suc k) (trace s))) = 1
             \<and> length (filter is_lookup (row_events (Suc k) (trace s))) \<le> 1
             \<and> length (filter is_post (row_events (Suc k) (trace s))) \<le> 1
             \<and> length (filter is_insert (row_events (Suc k) (trace s))) \<le> 1
             \<and> (\<forall>raw. customer_email (rows ! k) = Some raw \<longrightarrow>
                  filter is_lookup (row_events (Suc k) (trace s)) = [FindOne (toLowerCase raw)]))"
proof -
  let ?s = "process_rows ev startRange endRange rows (estate_init c)"
  from ok have run: "processEmails ev startRange endRange rows c = Inr ?s"
    by (simp add: processEmails_def)
  have 1: "currentIndex ?s = length rows" by (simp add: estate_init_def)
  note 2 = process_rows_tags [of startRange endRange rows ev c]
  have 3: "row_events (Suc k) (trace ?s) = []
      \<and> store (e_before ev startRange endRange rows c (Suc k))
          = store (e_before ev startRange endRange rows c k)"
    if k: "k < length rows" and out: "\<not> in_range startRange endRange (Suc k)" for k
  proof -
    let ?b = "e_before ev startRange endRange rows c k"
    from k have idx: "currentIndex ?b = k" by simp
    from k have fresh: "row_events (Suc k) (trace ?b) = []" by (simp add: e_before_fresh)
    from out have "\<not> in_range startRange endRange (Suc (currentIndex ?b))" by (simp add: idx)
    from process_row_untouched [OF this, of ev "rows ! k"] fresh show ?thesis
      by (simp add: process_rows_row_events [OF k] e_before_Suc [OF k])
  qed
  have 4: "length (filter is_log (row_events (Suc k) (trace ?s))) = 1
      \<and> length (filter is_lookup (row_events (Suc k) (trace ?s))) \<le> 1
      \<and> length (filter is_post (row_events (Suc k) (trace ?s))) \<le> 1
      \<and> length (filter is_insert (row_events (Suc k) (trace ?s))) \<le> 1
      \<and> (\<forall>raw. customer_email (rows ! k) = Some raw \<longrightarrow>
           filter is_lookup (row_events (Suc k) (trace ?s)) = [FindOne (toLowerCase raw)])"
    if k: "k < length rows" and inr: "in_range startRange endRange (Suc k)" for k
  proof -
    let ?b = "e_before ev startRange endRange rows c k"
    from k have idx: "currentIndex ?b = k" by simp
    from k have fresh: "row_events (Suc (currentIndex ?b)) (trace ?b) = []"
      by (simp add: e_before_fresh)
    from inr have inr': "in_range startRange endRange (Suc (currentIndex ?b))"
      by (simp add: idx)
    have ev: "row_events (Suc k) (trace ?s)
        = row_events (Suc (currentIndex ?b))
            (trace (process_row ev startRange endRange (rows ! k) ?b))"
      by (simp add: process_rows_row_events [OF k] idx)
    show ?thesis unfolding ev by (rule process_row_once [OF inr' fresh])
  qed
  from run 1 2 3 4 show ?thesis by blast
qed

lemma ten_rows_trace:
  "trace (process_rows steady_env 1 400 ten_rows (estate_init acme_store))
   = [(1, FindOne ''a@x.com''), (1, Log AlreadyProcessed),
      (2, FindOne ''nobody@y.org''), (2, Post ''nobody@y.org''),
      (2, InsertOne
           [(''email'', Str ''nobody@y.org''), (''data'', Payload ''{}''),
            (''processedAt'', Date 5)]),
      (2, Log Processed), (2, Delay 1000), (3, Log Error),
      (4, FindOne ''  ''), (4, Post ''  ''),
      (4, InsertOne
           [(''email'', Str ''  ''), (''data'', Payload ''{}''),
            (''processedAt'', Date 5)]),
      (4, Log Processed), (4, Delay 1000), (5, FindOne ''a@x.com''),
      (5, Log AlreadyProcessed), (6, FindOne ''nobody@y.org''),
      (6, Log AlreadyProcessed), (7, FindOne ''a@x.com''),
      (7, Log AlreadyProcessed), (8, Log Error),
      (9, FindOne ''nobody@y.org''), (9, Log AlreadyProcessed),
      (10, FindOne ''  ''), (10, Log AlreadyProcessed)]"
  by code_simp

theorem enrichment_range_witness:
  "\<not> connect_fails steady_env \<and> \<not> ingest_fails steady_env
   \<and> length ten_rows = 10
   \<and> processEmails steady_env 1 400 ten_rows acme_store
       = Inr (process_rows steady_env 1 400 ten_rows (estate_init acme_store))
   \<and> currentIndex (process_rows steady_env 1 400 ten_rows (estate_init acme_store)) = 10
   \<and> length (filter is_log (row_events 10
        (trace (process_rows steady_env 1 400 ten_rows (estate_init acme_store))))) = 1
   \<and> row_events 11
        (trace (process_rows steady_env 1 400 ten_rows (estate_init acme_store))) = []"
proof -
  have ok: "\<not> connect_fails steady_env" "\<not> ingest_fails steady_env"
    by (simp_all add: steady_env_def)
  have len: "length ten_rows = 10" by (simp add: ten_rows_def)
  have inr: "in_range 1 400 (Suc 9)" by (simp add: in_range_def)
  from enrichment_range [OF ok, of 1 400 ten_rows acme_store]
  obtain s where s: "processEmails steady_env 1 400 ten_rows acme_store = Inr s"
    "currentIndex s = length ten_rows"
    "\<forall>k<length ten_rows. in_range 1 400 (Suc k) \<longrightarrow>
       length (filter is_log (row_events (Suc k) (trace s))) = 1"
    by blast
  from s(1) have eq: "s = process_rows steady_env 1 400 ten_rows (estate_init acme_store)"
    by (simp add: processEmails_steady)
  have "9 < length ten_rows" by (simp add: len)
  with s(3) inr have "length (filter is_log (row_events (Suc 9) (trace s))) = 1"
    by blast
  moreover have "row_events 11
      (trace (process_rows steady_env 1 400 ten_rows (estate_init acme_store))) = []"
    by (simp add: ten_rows_trace)
  ultimately show ?thesis
    using ok len s(2) by (simp add: eq [symmetric] processEmails_steady)
qed

section \<open>Errors raised inside a row\<close>

lemma update_try_raised:
  "fst (update_try ev r s) \<Longrightarrow>
   errorRecords (snd (update_try ev r s)) = errorRecords s
   \<and> totalProcessed (snd (update_try ev r s)) = totalProcessed s"
  by (cases "customer_email r")
     (auto simp: update_try_def Let_def progress_def emit_def split: option.splits if_splits)

lemma update_row_raised:
  assumes "fst (update_try ev r (s\<lparr>totalProcessed := totalProcessed s + 1\<rparr>))"
  shows "errorRecords (update_row ev r s) = errorRecords s + 1
       \<and> (Suc (totalProcessed s), Log Error) \<in> set (trace (update_row ev r s))"
proof -
  let ?s' = "s\<lparr>totalProcessed := totalProcessed s + 1\<rparr>"
  obtain s'' where t: "update_try ev r ?s' = (True, s'')"
    using assms by (cases "update_try ev r ?s'") auto
  with update_try_raised [OF assms]
  have "errorRecords s'' = errorRecords s" "totalProcessed s'' = Suc (totalProcessed s)"
    by simp_all
  with t show ?thesis by (simp add: update_row_def)
qed

lemma process_row_raised:
  assumes "in_range startRange endRange (currentIndex s + 1)"
    and "fst (process_try ev r (s\<lparr>currentIndex := currentIndex s + 1\<rparr>))"
  shows "(Suc (currentIndex s), Log Error) \<in> set (trace (process_row ev startRange endRange r s))"
proof -
  from assms(1) have inr: "in_range startRange endRange (Suc (currentIndex s))" by simp
  show ?thesis
    using assms(2) inr
    by (cases ev startRange endRange r s rule: process_row_outcomes)
       (simp_all add: process_try_def Let_def)
qed

lemma update_rows_keeps:
  "p \<in> set (trace s) \<Longrightarrow> p \<in> set (trace (update_rows ev rs s))"
  using update_rows_trace [of ev rs s] by auto

lemma process_rows_keeps:
  "p \<in> set (trace s) \<Longrightarrow> p \<in> set (trace (process_rows ev startRange endRange rs s))"
  using process_rows_trace [of ev startRange endRange rs s] by auto

lemma updateStoreInfo_cases:
  "updateStoreInfo ev csvRows c =
     (if connect_fails ev then Inl ConnectionError
      else if ingest_fails ev then Inl IngestError
      else Inr (update_rows ev csvRows (ustate_init c)))"
  by (simp add: updateStoreInfo_def)

lemma u_raises_row:
  assumes k: "k < length csvRows" and r: "u_raises ev csvRows c k"
  shows "errorRecords (u_before ev csvRows c (Suc k)) = errorRecords (u_before ev csvRows c k) + 1
       \<and> (Suc k, Log Error) \<in> set (trace (update_rows ev csvRows (ustate_init c)))
       \<and> update_rows ev csvRows (ustate_init c)
           = update_rows ev (drop (Suc k) csvRows) (u_before ev csvRows c (Suc k))"
proof -
  let ?b = "u_before ev csvRows c k"
  from r have "fst (update_try ev (csvRows ! k) (?b\<lparr>totalProcessed := totalProcessed ?b + 1\<rparr>))"
    by (simp add: u_raises_def Let_def)
  from update_row_raised [OF this] k
  have row: "errorRecords (update_row ev (csvRows ! k) ?b) = errorRecords ?b + 1"
    "(Suc k, Log Error) \<in> set (trace (update_row ev (csvRows ! k) ?b))"
    by simp_all
  note split = update_rows_split [OF k, of ev c]
  from row(2) have "(Suc k, Log Error) \<in> set (trace (update_rows ev csvRows (ustate_init c)))"
    unfolding split by (rule update_rows_keeps)
  with row(1) split show ?thesis by (simp add: u_before_Suc [OF k])
qed

lemma e_raises_row:
  assumes k: "k < length rows" and r: "e_raises ev startRange endRange rows c k"
  shows "(Suc k, Log Error)
           \<in> set (trace (process_rows ev startRange endRange rows (estate_init c)))
       \<and> process_rows ev startRange endRange rows (estate_init c)
           = process_rows ev startRange endRange (drop (Suc k) rows)
               (e_before ev startRange endRange rows c (Suc k))"
proof -
  let ?b = "e_before ev startRange endRange rows c k"
  from r have "in_range startRange endRange (currentIndex ?b + 1)"
    "fst (process_try ev (rows ! k) (?b\<lparr>currentIndex := currentIndex ?b + 1\<rparr>))"
    by (simp_all add: e_raises_def Let_def)
  from process_row_raised [OF this] k
  have row: "(Suc k, Log Error)
      \<in> set (trace (process_row ev startRange endRange (rows ! k) ?b))"
    by simp
  note split = process_rows_split [OF k, of ev startRange endRange c]
  from row have "(Suc k, Log Error)
      \<in> set (trace (process_rows ev startRange endRange rows (estate_init c)))"
    unfolding split by (rule process_rows_keeps)
  with split show ?thesis by (simp add: e_before_Suc [OF k])
qed

section \<open>Claims about error handling\<close>

text \<open>
  C7: in both variants the job is aborted, before any row, exactly when the connection or
  the ingestion fails. Otherwise the loop visits every row whatever is raised on the way:
  whenever the \<^verbatim>\<open>try\<close> block of a row throws, the handler of that row reports the
  error, the rows after it are processed from the state the handler leaves, and in the update
  variant \<open>errors\<close> is incremented by one.
\<close>

theorem per_record_errors_contained:
  "(connect_fails ev \<or> ingest_fails ev \<longrightarrow>
      (\<exists>f. updateStoreInfo ev rows c = Inl f)
      \<and> (\<exists>f. processEmails ev startRange endRange rows c = Inl f))
   \<and> (\<not> connect_fails ev \<and> \<not> ingest_fails ev \<longrightarrow>
      (\<exists>s. updateStoreInfo ev rows c = Inr s \<and> totalProcessed s = length rows
         \<and> (\<forall>k<length rows. u_raises ev rows c k \<longrightarrow>
               errorRecords (u_before ev rows c (Suc k)) = errorRecords (u_before ev rows c k) + 1
             \<and> (Suc k, Log Error) \<in> set (trace s)
             \<and> s = update_rows ev (drop (Suc k) rows) (u_before ev rows c (Suc k))))
      \<and> (\<exists>s. processEmails ev startRange endRange rows c = Inr s
         \<and> currentIndex s = length rows
         \<and> (\<forall>k<length rows. e_raises ev startRange endRange rows c k \<longrightarrow>
               (Suc k, Log Error) \<in> set (trace s)
             \<and> s = process_rows ev startRange endRange (drop (Suc k) rows)
                     (e_before ev startRange endRange rows c (Suc k)))))"
proof (intro conjI impI)
  assume "connect_fails ev \<or> ingest_fails ev"
  then show "\<exists>f. updateStoreInfo ev rows c = Inl f"
    by (auto simp: updateStoreInfo_def)
next
  assume "connect_fails ev \<or> ingest_fails ev"
  then show "\<exists>f. processEmails ev startRange endRange rows c = Inl f"
    by (auto simp: processEmails_def)
next
  assume ok: "\<not> connect_fails ev \<and> \<not> ingest_fails ev"
  let ?s = "update_rows ev rows (ustate_init c)"
  from ok have "updateStoreInfo ev rows c = Inr ?s"
    by (simp add: updateStoreInfo_def)
  moreover have "totalProcessed ?s = length rows"
    by (simp add: ustate_init_def)
  moreover have "\<forall>k<length rows. u_raises ev rows c k \<longrightarrow>
      errorRecords (u_before ev rows c (Suc k)) = errorRecords (u_before ev rows c k) + 1
      \<and> (Suc k, Log Error) \<in> set (trace ?s)
      \<and> ?s = update_rows ev (drop (Suc k) rows) (u_before ev rows c (Suc k))"
    using u_raises_row by blast
  ultimately show "\<exists>s. updateStoreInfo ev rows c = Inr s \<and> totalProcessed s = length rows
      \<and> (\<forall>k<length rows. u_raises ev rows c k \<longrightarrow>
            errorRecords (u_before ev rows c (Suc k)) = errorRecords (u_before ev rows c k) + 1
          \<and> (Suc k, Log Error) \<in> set (trace s)
          \<and> s = update_rows ev (drop (Suc k) rows) (u_before ev rows c (Suc k)))"
    by blast
next
  assume ok: "\<not> connect_fails ev \<and> \<not> ingest_fails ev"
  let ?s = "process_rows ev startRange endRange rows (estate_init c)"
  from ok have "processEmails ev startRange endRange rows c = Inr ?s"
    by (simp add: processEmails_def)
  moreover have "currentIndex ?s = length rows"
    by (simp add: estate_init_def)
  moreover have "\<forall>k<length rows. e_raises ev startRange endRange rows c k \<longrightarrow>
      (Suc k, Log Error) \<in> set (trace ?s)
      \<and> ?s = process_rows ev startRange endRange (drop (Suc k) rows)
               (e_before ev startRange endRange rows c (Suc k))"
    using e_raises_row by blast
  ultimately show "\<exists>s. processEmails ev startRange endRange rows c = Inr s
      \<and> currentIndex s = length rows
      \<and> (\<forall>k<length rows. e_raises ev startRange endRange rows c k \<longrightarrow>
            (Suc k, Log Error) \<in> set (trace s)
          \<and> s = process_rows ev startRange endRange (drop (Suc k) rows)
                  (e_before ev startRange endRange rows c (Suc k)))"
    by blast
qed

theorem per_record_errors_contained_witness:
  "connect_fails offline_env
   \<and> updateStoreInfo offline_env [acme_row, acme_row] acme_store = Inl ConnectionError
   \<and> processEmails offline_env 1 400 [acme_row, acme_row] acme_store = Inl ConnectionError
   \<and> \<not> connect_fails faulty_env \<and> \<not> ingest_fails faulty_env
   \<and> u_raises faulty_env [acme_row, acme_row] acme_store 0
   \<and> e_raises faulty_env 1 400 [acme_row, acme_row] acme_store 0
   \<and> map_sum id counters (updateStoreInfo faulty_env [acme_row, acme_row] acme_store)
       = Inr (2, 1, 0, 1)
   \<and> map_sum id currentIndex (processEmails faulty_env 1 400 [acme_row, acme_row] acme_store)
       = Inr 2
   \<and> (1, Log Error) \<in> set (trace (update_rows faulty_env [acme_row, acme_row]
                                    (ustate_init acme_store)))
   \<and> (1, Log Error) \<in> set (trace (process_rows faulty_env 1 400 [acme_row, acme_row]
                                    (estate_init acme_store)))"
proof -
  let ?rows = "[acme_row, acme_row]"
  have off: "connect_fails offline_env" by (simp add: offline_env_def)
  have ok: "\<not> connect_fails faulty_env \<and> \<not> ingest_fails faulty_env"
    by (simp add: faulty_env_def steady_env_def)
  have ur: "u_raises faulty_env ?rows acme_store 0" by code_simp
  have er: "e_raises faulty_env 1 400 ?rows acme_store 0" by code_simp
  have cu: "map_sum id counters (updateStoreInfo faulty_env ?rows acme_store) = Inr (2, 1, 0, 1)"
    by code_simp
  from per_record_errors_contained [of offline_env ?rows acme_store 1 400] off
  obtain f g where "updateStoreInfo offline_env ?rows acme_store = Inl f"
    "processEmails offline_env 1 400 ?rows acme_store = Inl g"
    by blast
  with off have 1: "updateStoreInfo offline_env ?rows acme_store = Inl ConnectionError"
    "processEmails offline_env 1 400 ?rows acme_store = Inl ConnectionError"
    by (simp_all add: updateStoreInfo_def processEmails_def)
  from per_record_errors_contained [of faulty_env ?rows acme_store 1 400] ok
  obtain s t where s: "updateStoreInfo faulty_env ?rows acme_store = Inr s"
      "\<forall>k<length ?rows. u_raises faulty_env ?rows acme_store k \<longrightarrow>
          (Suc k, Log Error) \<in> set (trace s)"
    and t: "processEmails faulty_env 1 400 ?rows acme_store = Inr t"
      "currentIndex t = length ?rows"
      "\<forall>k<length ?rows. e_raises faulty_env 1 400 ?rows acme_store k \<longrightarrow>
          (Suc k, Log Error) \<in> set (trace t)"
    by blast
  from s(2) ur have 2: "(1, Log Error) \<in> set (trace s)" by auto
  from t(3) er have 3: "(1, Log Error) \<in> set (trace t)" by auto
  from s(1) ok have s': "s = update_rows faulty_env ?rows (ustate_init acme_store)"
    by (simp add: updateStoreInfo_def)
  from t(1) ok have t': "t = process_rows faulty_env 1 400 ?rows (estate_init acme_store)"
    by (simp add: processEmails_def)
  from t(1,2) have 4: "map_sum id currentIndex (processEmails faulty_env 1 400 ?rows acme_store)
      = Inr 2" by simp
  from off ok ur er cu 1 2 3 4 show ?thesis
    unfolding s' t' by blast
qed

text \<open>
  C10: in the enrichment variant, an in-range row without the \<open>customer_email\<close> column
  raises inside its \<^verbatim>\<open>try\<close> block; the handler reports the error and that is all the
  row does: no lookup, no request, no insert, the collection unchanged. The rest of the
  batch is processed from there, and the run visits every row.
\<close>

theorem enrichment_missing_email:
  assumes run: "processEmails ev startRange endRange rows c = Inr s"
    and k: "k < length rows" and inr: "in_range startRange endRange (Suc k)"
    and none: "customer_email (rows ! k) = None"
  shows "e_raises ev startRange endRange rows c k
       \<and> row_events (Suc k) (trace s) = [Log Error]
       \<and> store (e_before ev startRange endRange rows c (Suc k))
           = store (e_before ev startRange endRange rows c k)
       \<and> s = process_rows ev startRange endRange (drop (Suc k) rows)
               (emit (Suc k) (Log Error)
                  ((e_before ev startRange endRange rows c k)\<lparr>currentIndex := Suc k\<rparr>))
       \<and> currentIndex s = length rows"
proof -
  let ?b = "e_before ev startRange endRange rows c k"
  note s = processEmails_Inr [OF run]
  from k have idx: "currentIndex ?b = k" by simp
  from k have fresh: "row_events (Suc k) (trace ?b) = []" by (simp add: e_before_fresh)
  from inr have inr': "in_range startRange endRange (Suc (currentIndex ?b))" by (simp add: idx)
  note row = process_row_no_email [OF inr' none, of ev]
  have 1: "e_raises ev startRange endRange rows c k"
    using inr none by (simp add: e_raises_def Let_def idx process_try_def)
  have 2: "row_events (Suc k) (trace s) = [Log Error]"
    unfolding s using fresh by (simp add: process_rows_row_events [OF k] row idx)
  have 3: "store (e_before ev startRange endRange rows c (Suc k)) = store ?b"
    by (simp add: e_before_Suc [OF k] row)
  have 4: "s = process_rows ev startRange endRange (drop (Suc k) rows)
      (emit (Suc k) (Log Error) (?b\<lparr>currentIndex := Suc k\<rparr>))"
    unfolding s using process_rows_split [OF k, of ev startRange endRange c]
    by (simp add: row idx)
  have 5: "currentIndex s = length rows"
    unfolding s by (simp add: estate_init_def)
  from 1 2 3 4 5 show ?thesis by blast
qed

theorem enrichment_missing_email_witness:
  "processEmails steady_env 1 400 [no_email_row, stranger_row] acme_store
     = Inr (process_rows steady_env 1 400 [no_email_row, stranger_row] (estate_init acme_store))
   \<and> in_range 1 400 1 \<and> customer_email ([no_email_row, stranger_row] ! 0) = None
   \<and> row_events 1 (trace (process_rows steady_env 1 400 [no_email_row, stranger_row]
        (estate_init acme_store))) = [Log Error]
   \<and> store (e_before steady_env 1 400 [no_email_row, stranger_row] acme_store 1) = acme_store
   \<and> currentIndex (process_rows steady_env 1 400 [no_email_row, stranger_row]
        (estate_init acme_store)) = 2
   \<and> row_events 2 (trace (process_rows steady_env 1 400 [no_email_row, stranger_row]
        (estate_init acme_store)))
       = [FindOne ''nobody@y.org'', Post ''nobody@y.org'',
          InsertOne [(''email'', Str ''nobody@y.org''), (''data'', Payload ''{}''),
                     (''processedAt'', Date 5)],
          Log Processed, Delay 1000]"
proof -
  let ?rows = "[no_email_row, stranger_row]"
  have k: "0 < length ?rows" by simp
  have inr: "in_range 1 400 (Suc 0)" by (simp add: in_range_def)
  have none: "customer_email (?rows ! 0) = None" by (simp add: no_email_row_def)
  have b0: "store (e_before steady_env 1 400 ?rows acme_store 0) = acme_store"
    by (simp add: e_before_def estate_init_def)
  have next_row: "row_events 2 (trace (process_rows steady_env 1 400 ?rows
        (estate_init acme_store)))
       = [FindOne ''nobody@y.org'', Post ''nobody@y.org'',
          InsertOne [(''email'', Str ''nobody@y.org''), (''data'', Payload ''{}''),
                     (''processedAt'', Date 5)],
          Log Processed, Delay 1000]"
    by code_simp
  from enrichment_missing_email [OF processEmails_steady k inr none, of acme_store]
  have "row_events (Suc 0) (trace (process_rows steady_env 1 400 ?rows (estate_init acme_store)))
        = [Log Error]"
    and "store (e_before steady_env 1 400 ?rows acme_store (Suc 0))
        = store (e_before steady_env 1 400 ?rows acme_store 0)"
    and "currentIndex (process_rows steady_env 1 400 ?rows (estate_init acme_store))
        = length ?rows"
    by blast+
  with inr none next_row show ?thesis
    by (simp add: processEmails_steady b0)
qed

lemma process_row_delay:
  "row_events (Suc (currentIndex s)) (trace s) = [] \<Longrightarrow>
   filter is_delay (row_events (Suc (currentIndex s))
      (trace (process_row ev startRange endRange r s)))
     = (if Log Processed \<in> set (row_events (Suc (currentIndex s))
            (trace (process_row ev startRange endRange r s)))
        then [Delay 1000] else [])"
  by (cases ev startRange endRange r s rule: process_row_outcomes) simp_all

text \<open>
  C8 says that after every request to the matching service the run waits for a second
  before the next row. The wait is the last statement of the \<^verbatim>\<open>try\<close> block, so it is
  skipped whenever the request is rejected or the insert that follows it throws. In both
  runs below the lookup of row 2 follows the failed row 1 with no \<open>Delay\<close> in between,
  while the successful row 2 is followed by one.
\<close>

theorem delay_skipped_after_failure:
  "map_sum id trace (processEmails rejecting_env 1 400 [acme_row, stranger_row] [])
     = Inr [(1, FindOne ''a@x.com''), (1, Post ''a@x.com''), (1, Log Error),
            (2, FindOne ''nobody@y.org''), (2, Post ''nobody@y.org''),
            (2, InsertOne [(''email'', Str ''nobody@y.org''), (''data'', Payload ''{}''),
                           (''processedAt'', Date 5)]),
            (2, Log Processed), (2, Delay 1000)]
   \<and> map_sum id trace (processEmails insert_failing_env 1 400 [acme_row, stranger_row] [])
     = Inr [(1, FindOne ''a@x.com''), (1, Post ''a@x.com''),
            (1, InsertOne [(''email'', Str ''a@x.com''), (''data'', Payload ''{}''),
                           (''processedAt'', Date 5)]),
            (1, Log Error),
            (2, FindOne ''nobody@y.org''), (2, Post ''nobody@y.org''),
            (2, InsertOne [(''email'', Str ''nobody@y.org''), (''data'', Payload ''{}''),
                           (''processedAt'', Date 5)]),
            (2, Log Processed), (2, Delay 1000)]"
  by code_simp

section \<open>Claims about the reporter\<close>

lemma countDocuments_le: "countDocuments c P \<le> countDocuments c (\<lambda>d. True)"
  by (simp add: countDocuments_def)

text \<open>
  C9: the coverage is computed only when some document has both store fields, and then the
  total is positive. So with a total of 0 no division takes place and no coverage is
  reported, and a reported coverage is never \<open>NaN\<close> or infinite: it is the count of
  documents with both fields over the total, times 100.
\<close>

theorem coverage_guard:
  assumes "verifyStoreInfo ev c = Inr rep"
  shows "(totalRecords rep = 0 \<longrightarrow> coverage rep = None)
       \<and> coverage rep \<noteq> Some NaN \<and> coverage rep \<noteq> Some PosInfinity
       \<and> coverage rep
           = (if 0 < withBothStoreInfo rep
              then Some (Num (of_nat (withBothStoreInfo rep) / of_nat (totalRecords rep) * 100))
              else None)"
proof -
  let ?both = "countDocuments c
    (\<lambda>d. has_field ''external_store_id'' d \<and> has_field ''store_name'' d)"
  let ?total = "countDocuments c (\<lambda>d. True)"
  from assms have rep: "totalRecords rep = ?total" "withBothStoreInfo rep = ?both"
    "coverage rep = (if ?both > 0 then Some (js_times100 (js_div ?both ?total)) else None)"
    by (auto simp: verifyStoreInfo_def Let_def split: if_splits)
  have le: "?both \<le> ?total" by (rule countDocuments_le)
  show ?thesis
  proof (cases "0 < ?both")
    case True
    with le have "0 < ?total" by simp
    with True rep show ?thesis by (simp add: js_div_def js_times100_def)
  next
    case False
    with rep show ?thesis by simp
  qed
qed

theorem coverage_guard_witness:
  "verifyStoreInfo steady_env []
     = Inr \<lparr>totalRecords = 0, withStoreId = 0, withStoreName = 0, withBothStoreInfo = 0,
            coverage = None\<rparr>
   \<and> verifyStoreInfo steady_env stocked_store
     = Inr \<lparr>totalRecords = 3, withStoreId = 2, withStoreName = 1, withBothStoreInfo = 1,
            coverage = Some (Num (100 / 3))\<rparr>"
proof -
  have e: "verifyStoreInfo steady_env []
     = Inr \<lparr>totalRecords = 0, withStoreId = 0, withStoreName = 0, withBothStoreInfo = 0,
            coverage = None\<rparr>"
    by (simp add: verifyStoreInfo_def steady_env_def countDocuments_def)
  have f: "verifyStoreInfo steady_env stocked_store
     = Inr \<lparr>totalRecords = 3, withStoreId = 2, withStoreName = 1, withBothStoreInfo = 1,
            coverage = Some (Num (100 / 3))\<rparr>"
    by (simp add: verifyStoreInfo_def steady_env_def countDocuments_def stocked_store_def
        has_field_def js_div_def js_times100_def)
  from coverage_guard [OF e] coverage_guard [OF f] e f show ?thesis by simp
qed

end
